theory Spec2Isabelle
  imports Main
begin

section \<open>Strings and JSON values\<close>

text \<open>
  JavaScript strings are modelled as HOL strings, a list of code units restricted to the
  8-bit range. \<open>String.prototype.trim\<close> removes the ECMAScript white space and line
  terminator code units at both ends; in the 8-bit range these are TAB, LF, VT, FF, CR,
  SPACE and NBSP.
\<close>

definition isWhiteSpace :: "char \<Rightarrow> bool" where
  "isWhiteSpace c =
     (c \<in> set [CHR 0x09, CHR 0x0A, CHR 0x0B, CHR 0x0C, CHR 0x0D, CHR 0x20, CHR 0xA0])"

definition trim :: "string \<Rightarrow> string" where
  "trim s = rev (dropWhile isWhiteSpace (rev (dropWhile isWhiteSpace s)))"

text \<open>
  The values \<open>JSON.parse\<close> returns. Numbers are restricted to the integers, which is
  what the editor supplies as a line index; an object is its list of properties in
  insertion order.
\<close>

datatype json =
    JNull
  | JBool bool
  | JNum int
  | JStr string
  | JArr "json list"
  | JObj "(string \<times> json) list"

text \<open>Property access \<open>v.k\<close> for the property names the store reads; \<open>None\<close> is \<open>undefined\<close>.\<close>

fun getProp :: "json \<Rightarrow> string \<Rightarrow> json option" where
  "getProp (JObj ps) k = map_of ps k"
| "getProp _ k = None"

section \<open>The file system and the environment\<close>

datatype error = SyntaxError | FsError | InvalidData

datatype 'a res = Ok 'a | Throw error

text \<open>
  The state of the file system: the regular files with their content, and the paths on
  which a read, respectively a write (also as the target of a copy or a rename), throws.
  Directories are not modelled: the notes directory is created when the path of the notes
  file is computed.
\<close>

record fs =
  files :: "string \<rightharpoonup> string"
  readErr :: "string set"
  writeErr :: "string set"

definition existsSync :: "fs \<Rightarrow> string \<Rightarrow> bool" where
  "existsSync s p = (files s p \<noteq> None)"

definition readFileSync :: "fs \<Rightarrow> string \<Rightarrow> string res" where
  "readFileSync s p =
     (case files s p of
        None \<Rightarrow> Throw FsError
      | Some c \<Rightarrow> if p \<in> readErr s then Throw FsError else Ok c)"

definition writeFileSync :: "fs \<Rightarrow> string \<Rightarrow> string \<Rightarrow> unit res \<times> fs" where
  "writeFileSync s p d =
     (if p \<in> writeErr s then (Throw FsError, s)
      else (Ok (), s\<lparr>files := (files s)(p \<mapsto> d)\<rparr>))"

text \<open>\<open>fs.copyFileSync\<close> without a mode flag: an existing destination is overwritten.\<close>

definition copyFileSync :: "fs \<Rightarrow> string \<Rightarrow> string \<Rightarrow> unit res \<times> fs" where
  "copyFileSync s src dst =
     (case readFileSync s src of
        Throw err \<Rightarrow> (Throw err, s)
      | Ok c \<Rightarrow> writeFileSync s dst c)"

definition renameSync :: "fs \<Rightarrow> string \<Rightarrow> string \<Rightarrow> unit res \<times> fs" where
  "renameSync s old new =
     (case files s old of
        None \<Rightarrow> (Throw FsError, s)
      | Some c \<Rightarrow>
          if new \<in> writeErr s then (Throw FsError, s)
          else (Ok (), s\<lparr>files := ((files s)(old := None))(new \<mapsto> c)\<rparr>))"

text \<open>
  What the store takes from its surroundings: the path of the notes file
  (\<open>getNotesFilePath\<close>), \<open>path.resolve\<close>, \<open>JSON.parse\<close> (\<open>None\<close> is a
  \<open>SyntaxError\<close>), \<open>JSON.stringify\<close> and \<open>String.prototype.localeCompare\<close>.
\<close>

record env =
  notesFile :: string
  resolve :: "string \<Rightarrow> string"
  JSON_parse :: "string \<Rightarrow> json option"
  JSON_stringify :: "json \<Rightarrow> string"
  localeCompare :: "string \<Rightarrow> string \<Rightarrow> int"

section \<open>File utilities\<close>

definition digitChar :: "nat \<Rightarrow> char" where
  "digitChar d = ''0123456789'' ! d"

fun decimal :: "nat \<Rightarrow> string" where
  "decimal n =
     (if n < 10 then [digitChar n] else decimal (n div 10) @ [digitChar (n mod 10)])"

declare decimal.simps [simp del]

text \<open>The backup path for the clock reading \<open>now\<close> (\<open>Date.now()\<close>, in milliseconds).\<close>

definition backupPath :: "string \<Rightarrow> nat \<Rightarrow> string" where
  "backupPath filePath now = filePath @ ''.backup.'' @ decimal now"

text \<open>\<open>backupCorruptedFile\<close>: a failed copy is caught and logged.\<close>

definition backupCorruptedFile :: "fs \<Rightarrow> nat \<Rightarrow> string \<Rightarrow> fs" where
  "backupCorruptedFile s now filePath =
     (if existsSync s filePath
      then snd (copyFileSync s filePath (backupPath filePath now))
      else s)"

text \<open>\<open>safeReadFile\<close>: the trimmed content, or \<open>None\<close> (\<open>null\<close>) when there is no file or
  the read throws.\<close>

definition safeReadFile :: "fs \<Rightarrow> string \<Rightarrow> string option" where
  "safeReadFile s p =
     (if existsSync s p
      then (case readFileSync s p of Ok c \<Rightarrow> Some (trim c) | Throw err \<Rightarrow> None)
      else None)"

text \<open>\<open>atomicWriteFile\<close>: write a temporary sibling, then rename it over the target.\<close>

definition atomicWriteFile :: "fs \<Rightarrow> string \<Rightarrow> string \<Rightarrow> unit res \<times> fs" where
  "atomicWriteFile s filePath d =
     (case writeFileSync s (filePath @ ''.tmp'') d of
        (Throw err, s') \<Rightarrow> (Throw err, s')
      | (Ok u, s') \<Rightarrow> renameSync s' (filePath @ ''.tmp'') filePath)"

section \<open>The notes storage\<close>

record Note =
  filePath :: string
  line :: int
  noteText :: string
  timestamp :: string

text \<open>\<open>isValidNotesData\<close>: \<open>data && Array.isArray(data.notes)\<close>.\<close>

definition isValidNotesData :: "json \<Rightarrow> bool" where
  "isValidNotesData d = (case getProp d ''notes'' of Some (JArr ns) \<Rightarrow> True | _ \<Rightarrow> False)"

definition notesOf :: "json \<Rightarrow> json list" where
  "notesOf d = (case getProp d ''notes'' of Some (JArr ns) \<Rightarrow> ns | _ \<Rightarrow> [])"

definition isString :: "json option \<Rightarrow> bool" where
  "isString v = (case v of Some (JStr x) \<Rightarrow> True | _ \<Rightarrow> False)"

definition isNumber :: "json option \<Rightarrow> bool" where
  "isNumber v = (case v of Some (JNum x) \<Rightarrow> True | _ \<Rightarrow> False)"

definition strOf :: "json option \<Rightarrow> string" where
  "strOf v = (case v of Some (JStr x) \<Rightarrow> x | _ \<Rightarrow> [])"

definition numOf :: "json option \<Rightarrow> int" where
  "numOf v = (case v of Some (JNum x) \<Rightarrow> x | _ \<Rightarrow> 0)"

text \<open>\<open>isValidNote\<close>, on an arbitrary element of the parsed array.\<close>

definition isValidNote :: "json \<Rightarrow> bool" where
  "isValidNote note =
     (isString (getProp note ''filePath'') \<and>
      isNumber (getProp note ''line'') \<and>
      0 \<le> numOf (getProp note ''line'') \<and>
      isString (getProp note ''text'') \<and>
      0 < length (trim (strOf (getProp note ''text''))) \<and>
      isString (getProp note ''timestamp''))"

text \<open>
  \<open>sanitizeNotes\<close>: the valid elements, with the path resolved and the text trimmed. The
  record keeps the four properties of a note; further properties of a persisted element,
  which the spread would carry along, are read by no operation.
\<close>

definition sanitizeNote :: "env \<Rightarrow> json \<Rightarrow> Note" where
  "sanitizeNote e note =
     \<lparr>filePath = resolve e (strOf (getProp note ''filePath'')),
      line = numOf (getProp note ''line''),
      noteText = trim (strOf (getProp note ''text'')),
      timestamp = strOf (getProp note ''timestamp'')\<rparr>"

definition sanitizeNotes :: "env \<Rightarrow> json list \<Rightarrow> Note list" where
  "sanitizeNotes e notes = map (sanitizeNote e) (filter isValidNote notes)"

definition backupAndReset :: "env \<Rightarrow> fs \<Rightarrow> nat \<Rightarrow> fs" where
  "backupAndReset e s now = backupCorruptedFile s now (notesFile e)"

text \<open>
  \<open>loadNotes\<close>: the body of the \<open>try\<close>, in which \<open>JSON.parse\<close> may throw, and the whole
  function with its \<open>catch\<close>. The result is the loaded notes and the file system after
  the call. \<open>!data\<close> holds for \<open>null\<close> and for the empty string.
\<close>

definition loadNotes_try :: "env \<Rightarrow> fs \<Rightarrow> nat \<Rightarrow> (Note list \<times> fs) res" where
  "loadNotes_try e s now =
     (case safeReadFile s (notesFile e) of
        None \<Rightarrow> Ok ([], s)
      | Some d \<Rightarrow>
          if d = [] then Ok ([], s)
          else (case JSON_parse e d of
                  None \<Rightarrow> Throw SyntaxError
                | Some parsed \<Rightarrow>
                    if \<not> isValidNotesData parsed then Ok ([], backupAndReset e s now)
                    else Ok (sanitizeNotes e (notesOf parsed), s)))"

definition loadNotes :: "env \<Rightarrow> fs \<Rightarrow> nat \<Rightarrow> Note list \<times> fs" where
  "loadNotes e s now =
     (case loadNotes_try e s now of
        Ok r \<Rightarrow> r
      | Throw err \<Rightarrow> ([], backupAndReset e s now))"

text \<open>
  \<open>saveNotes\<close>: the document handed to \<open>JSON.stringify\<close>, the body of the \<open>try\<close>, and
  the whole function, whose \<open>catch\<close> shows an error message and returns normally. The
  read-back after the write only logs.
\<close>

definition noteJson :: "Note \<Rightarrow> json" where
  "noteJson n =
     JObj [(''filePath'', JStr (filePath n)), (''line'', JNum (line n)),
           (''text'', JStr (noteText n)), (''timestamp'', JStr (timestamp n))]"

definition dataJson :: "Note list \<Rightarrow> json" where
  "dataJson ns = JObj [(''notes'', JArr (map noteJson ns))]"

definition saveNotes_try :: "env \<Rightarrow> fs \<Rightarrow> Note list \<Rightarrow> unit res \<times> fs" where
  "saveNotes_try e s ns =
     (if \<not> isValidNotesData (dataJson ns) then (Throw InvalidData, s)
      else atomicWriteFile s (notesFile e) (JSON_stringify e (dataJson ns)))"

definition saveNotes :: "env \<Rightarrow> fs \<Rightarrow> Note list \<Rightarrow> fs" where
  "saveNotes e s ns = snd (saveNotes_try e s ns)"

definition getNotesForFile :: "env \<Rightarrow> fs \<Rightarrow> nat \<Rightarrow> string \<Rightarrow> Note list \<times> fs" where
  "getNotesForFile e s now fp =
     (let (notes, s1) = loadNotes e s now;
          normalizedPath = resolve e fp
      in (filter (\<lambda>note. resolve e (filePath note) = normalizedPath) notes, s1))"

text \<open>The predicate of \<open>findIndex\<close>, \<open>some\<close> and (negated) \<open>filter\<close> in the store.\<close>

definition sameKey :: "env \<Rightarrow> string \<Rightarrow> int \<Rightarrow> Note \<Rightarrow> bool" where
  "sameKey e normalizedFilePath l note =
     (resolve e (filePath note) = normalizedFilePath \<and> line note = l)"

fun findIndex :: "('a \<Rightarrow> bool) \<Rightarrow> 'a list \<Rightarrow> nat option" where
  "findIndex P [] = None"
| "findIndex P (x # xs) = (if P x then Some 0 else map_option Suc (findIndex P xs))"

text \<open>
  \<open>addOrUpdateNote\<close>: the collection after the replacement or the append, and the whole
  operation at the clock readings \<open>now\<close> (\<open>Date.now()\<close>) and \<open>stamp\<close>
  (\<open>new Date().toISOString()\<close>). No call in the body throws (\<open>loadNotes\<close> and
  \<open>saveNotes\<close> catch what they raise), so the \<open>catch\<close> that returns \<open>false\<close> is never
  entered.
\<close>

definition upsertNotes ::
  "env \<Rightarrow> Note list \<Rightarrow> string \<Rightarrow> int \<Rightarrow> string \<Rightarrow> string \<Rightarrow> Note list" where
  "upsertNotes e notes fp l t stamp =
     (let normalizedFilePath = resolve e fp;
          newNote = \<lparr>filePath = normalizedFilePath, line = l, noteText = trim t,
                     timestamp = stamp\<rparr>
      in case findIndex (sameKey e normalizedFilePath l) notes of
           Some i \<Rightarrow> notes[i := newNote]
         | None \<Rightarrow> notes @ [newNote])"

definition addOrUpdateNote ::
  "env \<Rightarrow> fs \<Rightarrow> nat \<Rightarrow> string \<Rightarrow> string \<Rightarrow> int \<Rightarrow> string \<Rightarrow> bool \<times> fs" where
  "addOrUpdateNote e s now stamp fp l t =
     (let (notes, s1) = loadNotes e s now
      in (True, saveNotes e s1 (upsertNotes e notes fp l t stamp)))"

definition noteExists :: "env \<Rightarrow> fs \<Rightarrow> nat \<Rightarrow> string \<Rightarrow> int \<Rightarrow> bool \<times> fs" where
  "noteExists e s now fp l =
     (let (notes, s1) = loadNotes e s now
      in (list_ex (sameKey e (resolve e fp) l) notes, s1))"

definition removeNote :: "env \<Rightarrow> Note list \<Rightarrow> string \<Rightarrow> int \<Rightarrow> Note list" where
  "removeNote e notes fp l = filter (\<lambda>note. \<not> sameKey e (resolve e fp) l note) notes"

definition deleteNote :: "env \<Rightarrow> fs \<Rightarrow> nat \<Rightarrow> string \<Rightarrow> int \<Rightarrow> bool \<times> fs" where
  "deleteNote e s now fp l =
     (let (notes, s1) = loadNotes e s now;
          kept = removeNote e notes fp l
      in if length kept = length notes then (False, s1)
         else (True, saveNotes e s1 kept))"

text \<open>
  \<open>getAllNotesSorted\<close>. \<open>Array.prototype.sort\<close> is stable; it is modelled as the stable
  insertion sort by the comparator.
\<close>

definition compareNotes :: "env \<Rightarrow> Note \<Rightarrow> Note \<Rightarrow> int" where
  "compareNotes e a b =
     (let fileCompare = localeCompare e (filePath a) (filePath b)
      in if fileCompare \<noteq> 0 then fileCompare else line a - line b)"

fun insertBy :: "('a \<Rightarrow> 'a \<Rightarrow> int) \<Rightarrow> 'a \<Rightarrow> 'a list \<Rightarrow> 'a list" where
  "insertBy cmp x [] = [x]"
| "insertBy cmp x (y # ys) = (if cmp x y \<le> 0 then x # y # ys else y # insertBy cmp x ys)"

definition sortBy :: "('a \<Rightarrow> 'a \<Rightarrow> int) \<Rightarrow> 'a list \<Rightarrow> 'a list" where
  "sortBy cmp xs = foldr (insertBy cmp) xs []"

definition getAllNotesSorted :: "env \<Rightarrow> fs \<Rightarrow> nat \<Rightarrow> Note list \<times> fs" where
  "getAllNotesSorted e s now =
     (let (notes, s1) = loadNotes e s now in (sortBy (compareNotes e) notes, s1))"

section \<open>Configuration constants\<close>

text \<open>The entries of \<open>DEFAULT_CONFIG\<close> that the modelled code and its callers refer to.\<close>

definition MAX_NOTE_LENGTH :: nat where
  "MAX_NOTE_LENGTH = 1000"

definition CLICK_DEBOUNCE_TIME :: nat where
  "CLICK_DEBOUNCE_TIME = 100"

definition MAX_LINE_LENGTH_DISPLAY :: nat where
  "MAX_LINE_LENGTH_DISPLAY = 60"

section \<open>Text utilities\<close>

text \<open>\<open>text.split(' ')\<close>: the pieces between the separators, empty pieces included.\<close>

fun splitOn :: "char \<Rightarrow> string \<Rightarrow> string list" where
  "splitOn c [] = [[]]"
| "splitOn c (x # xs) =
     (if x = c then [] # splitOn c xs
      else (case splitOn c xs of w # ws \<Rightarrow> (x # w) # ws | [] \<Rightarrow> [[x]]))"

text \<open>One round of the loop of \<open>formatTextForDisplay\<close> on the pair \<open>(lines, currentLine)\<close>.\<close>

definition wrapStep :: "nat \<Rightarrow> string list \<times> string \<Rightarrow> string \<Rightarrow> string list \<times> string" where
  "wrapStep maxLineLength st word =
     (case st of (lines, currentLine) \<Rightarrow>
        if length currentLine + length word + 1 \<le> maxLineLength
        then (lines, currentLine @ (if currentLine \<noteq> [] then '' '' else []) @ word)
        else (if currentLine \<noteq> [] then lines @ [currentLine] else lines, word))"

text \<open>The array \<open>lines\<close> after the loop and the final push.\<close>

definition wrapLines :: "string \<Rightarrow> nat \<Rightarrow> string list" where
  "wrapLines t maxLineLength =
     (case foldl (wrapStep maxLineLength) ([], []) (splitOn CHR '' '' t) of
        (lines, currentLine) \<Rightarrow>
          if currentLine \<noteq> [] then lines @ [currentLine] else lines)"

fun joinLines :: "string list \<Rightarrow> string" where
  "joinLines [] = []"
| "joinLines [l] = l"
| "joinLines (l # ls) = l @ [CHR 0x0A] @ joinLines ls"

definition formatTextForDisplay :: "string \<Rightarrow> nat \<Rightarrow> string" where
  "formatTextForDisplay t maxLineLength =
     (if t = [] then [] else joinLines (wrapLines t maxLineLength))"

section \<open>The decoration manager\<close>

text \<open>\<open>filterValidNotes\<close> for a document of \<open>lineCount\<close> lines.\<close>

definition filterValidNotes :: "Note list \<Rightarrow> nat \<Rightarrow> Note list" where
  "filterValidNotes notes lineCount =
     filter (\<lambda>note. 0 \<le> line note \<and> line note < int lineCount) notes"

text \<open>
  \<open>updateDecorationsForEditor\<close>: the notes for which a decoration is set (one decoration
  per note, at the end of the note's line), and the file system after the call.
\<close>

definition updateDecorationsForEditor ::
  "env \<Rightarrow> fs \<Rightarrow> nat \<Rightarrow> string \<Rightarrow> nat \<Rightarrow> Note list \<times> fs" where
  "updateDecorationsForEditor e s now fp lineCount =
     (let (notes, s1) = getNotesForFile e s now fp
      in (filterValidNotes notes lineCount, s1))"

section \<open>The click handler\<close>

datatype SelectionChangeKind = Keyboard | Mouse | Command

text \<open>
  A selection-change event: the editor (by the path of its document, \<open>None\<close> when there
  is none), whether the first selection is empty, the kind of change (\<open>None\<close> when
  undefined) and the active position of the first selection.
\<close>

record SelectionEvent =
  textEditor :: "string option"
  isEmpty :: bool
  kind :: "SelectionChangeKind option"
  activeLine :: nat
  activeCharacter :: nat

text \<open>
  A timer of the event loop: its handle, the time at which it is due, and the arguments
  its callback passes to \<open>handlePotentialNoteClick\<close>.
\<close>

record Timer =
  timerId :: nat
  due :: nat
  cbEditor :: string
  cbLine :: nat
  cbCharacter :: nat

text \<open>
  The two fields of the handler, together with the part of the host it acts on: the
  timers that are set and not yet run or cleared, the next fresh handle, and the calls of
  \<open>handlePotentialNoteClick\<close> made so far.
\<close>

record ClickHandler =
  clickTimeout :: "nat option"
  lastClickPosition :: "(nat \<times> nat) option"
  timers :: "Timer list"
  nextTimerId :: nat
  evaluated :: "(string \<times> nat \<times> nat) list"

definition initialHandler :: ClickHandler where
  "initialHandler =
     \<lparr>clickTimeout = None, lastClickPosition = None, timers = [], nextTimerId = 0,
      evaluated = []\<rparr>"

definition clearTimeout :: "ClickHandler \<Rightarrow> nat \<Rightarrow> ClickHandler" where
  "clearTimeout h i = h\<lparr>timers := filter (\<lambda>tm. timerId tm \<noteq> i) (timers h)\<rparr>"

definition isSamePosition :: "ClickHandler \<Rightarrow> nat \<Rightarrow> nat \<Rightarrow> bool" where
  "isSamePosition h l c = (lastClickPosition h = Some (l, c))"

text \<open>\<open>debounceClick\<close> at time \<open>now\<close>, for the callback with the given arguments.\<close>

definition debounceClick :: "ClickHandler \<Rightarrow> nat \<Rightarrow> string \<Rightarrow> nat \<Rightarrow> nat \<Rightarrow> ClickHandler" where
  "debounceClick h now ed l c =
     (let h1 = (case clickTimeout h of Some i \<Rightarrow> clearTimeout h i | None \<Rightarrow> h);
          tm = \<lparr>timerId = nextTimerId h1, due = now + CLICK_DEBOUNCE_TIME, cbEditor = ed,
                cbLine = l, cbCharacter = c\<rparr>
      in h1\<lparr>timers := timers h1 @ [tm], nextTimerId := Suc (nextTimerId h1),
             clickTimeout := Some (timerId tm)\<rparr>)"

text \<open>The selection handler registered by \<open>registerSelectionHandler\<close>.\<close>

definition onSelection :: "ClickHandler \<Rightarrow> nat \<Rightarrow> SelectionEvent \<Rightarrow> ClickHandler" where
  "onSelection h now ev =
     (case textEditor ev of
        None \<Rightarrow> h
      | Some ed \<Rightarrow>
          if \<not> isEmpty ev \<or> kind ev \<noteq> Some Mouse then h
          else if isSamePosition h (activeLine ev) (activeCharacter ev) then h
          else debounceClick
                 (h\<lparr>lastClickPosition := Some (activeLine ev, activeCharacter ev)\<rparr>)
                 now ed (activeLine ev) (activeCharacter ev))"

text \<open>A timer runs: its callback evaluates the candidate and resets \<open>clickTimeout\<close>.\<close>

definition runTimer :: "ClickHandler \<Rightarrow> Timer \<Rightarrow> ClickHandler" where
  "runTimer h tm =
     h\<lparr>timers := filter (\<lambda>x. timerId x \<noteq> timerId tm) (timers h),
       evaluated := evaluated h @ [(cbEditor tm, cbLine tm, cbCharacter tm)],
       clickTimeout := None\<rparr>"

text \<open>The event loop up to time \<open>now\<close>: every timer that is due runs.\<close>

definition runUntil :: "nat \<Rightarrow> ClickHandler \<Rightarrow> ClickHandler" where
  "runUntil now h = foldl runTimer h (filter (\<lambda>tm. due tm \<le> now) (timers h))"

text \<open>An event arrives at time \<open>now\<close>: the timers due by then have run.\<close>

definition deliver :: "ClickHandler \<Rightarrow> nat \<times> SelectionEvent \<Rightarrow> ClickHandler" where
  "deliver h tev = onSelection (runUntil (fst tev) h) (fst tev) (snd tev)"

definition runEvents :: "(nat \<times> SelectionEvent) list \<Rightarrow> ClickHandler" where
  "runEvents tevs = foldl deliver initialHandler tevs"

definition qualifying :: "SelectionEvent \<Rightarrow> bool" where
  "qualifying ev = (textEditor ev \<noteq> None \<and> isEmpty ev \<and> kind ev = Some Mouse)"

text \<open>
  \<open>handlePotentialNoteClick\<close> on a document given by its lines: the arguments of the one
  call of \<open>onNoteClick\<close> it makes, if it makes one. \<open>lineAt\<close> throws beyond the last line,
  which the \<open>catch\<close> logs.
\<close>

definition handlePotentialNoteClick ::
  "env \<Rightarrow> fs \<Rightarrow> nat \<Rightarrow> string list \<Rightarrow> string \<Rightarrow> nat \<Rightarrow> nat \<Rightarrow> (string \<times> nat) option \<times> fs" where
  "handlePotentialNoteClick e s now doc fp l c =
     (if length doc \<le> l then (None, s)
      else if int c \<ge> max 0 (int (length (doc ! l)) - 10)
      then (let (notes, s1) = getNotesForFile e s now fp
            in (case find (\<lambda>n. line n = int l) notes of
                  Some n \<Rightarrow> (Some (fp, l), s1)
                | None \<Rightarrow> (None, s1)))
      else (None, s))"

section \<open>A sample environment\<close>

text \<open>
  The environment of the examples: working directory \<open>/work\<close>, and \<open>path.resolve\<close>,
  \<open>JSON.parse\<close> and \<open>JSON.stringify\<close> as they act on the paths, texts and documents
  the examples use (a text outside the table is not used by any example).
\<close>

definition samplePath :: string where
  "samplePath = ''/ext/bubulle-notes/.bubulle-notes.json''"

definition sample_resolve :: "string \<Rightarrow> string" where
  "sample_resolve p =
     (if take 1 p = ''/'' then p
      else if take 2 p = ''./'' then ''/work/'' @ drop 2 p
      else ''/work/'' @ p)"

fun strCompare :: "string \<Rightarrow> string \<Rightarrow> int" where
  "strCompare [] [] = 0"
| "strCompare [] (y # ys) = - 1"
| "strCompare (x # xs) [] = 1"
| "strCompare (x # xs) (y # ys) =
     (if x = y then strCompare xs ys
      else if (of_char x :: nat) < of_char y then - 1 else 1)"

definition noteA :: Note where
  "noteA = \<lparr>filePath = ''/work/a.ts'', line = 4, noteText = ''fix this'',
            timestamp = ''2024-05-01T10:00:00.000Z''\<rparr>"

definition noteB :: Note where
  "noteB = \<lparr>filePath = ''/work/a.ts'', line = 4, noteText = ''fix this better'',
            timestamp = ''2024-05-01T10:05:00.000Z''\<rparr>"

definition textOops :: string where
  \<open>textOops = ''{"notes": "oops"}''\<close>

definition textEmpty :: string where
  \<open>textEmpty = ''{\<newline>  "notes": []\<newline>}''\<close>

definition textA :: string where
  \<open>textA = ''{\<newline>  "notes": [\<newline>    {\<newline>      "filePath": "/work/a.ts",\<newline>      "line": 4,\<newline>      "text": "fix this",\<newline>      "timestamp": "2024-05-01T10:00:00.000Z"\<newline>    }\<newline>  ]\<newline>}''\<close>

definition textB :: string where
  \<open>textB = ''{\<newline>  "notes": [\<newline>    {\<newline>      "filePath": "/work/a.ts",\<newline>      "line": 4,\<newline>      "text": "fix this better",\<newline>      "timestamp": "2024-05-01T10:05:00.000Z"\<newline>    }\<newline>  ]\<newline>}''\<close>

definition textAA :: string where
  \<open>textAA = ''{\<newline>  "notes": [\<newline>    {\<newline>      "filePath": "/work/a.ts",\<newline>      "line": 4,\<newline>      "text": "fix this",\<newline>      "timestamp": "2024-05-01T10:00:00.000Z"\<newline>    },\<newline>    {\<newline>      "filePath": "/work/a.ts",\<newline>      "line": 4,\<newline>      "text": "fix this",\<newline>      "timestamp": "2024-05-01T10:00:00.000Z"\<newline>    }\<newline>  ]\<newline>}''\<close>

definition textBA :: string where
  \<open>textBA = ''{\<newline>  "notes": [\<newline>    {\<newline>      "filePath": "/work/a.ts",\<newline>      "line": 4,\<newline>      "text": "fix this better",\<newline>      "timestamp": "2024-05-01T10:05:00.000Z"\<newline>    },\<newline>    {\<newline>      "filePath": "/work/a.ts",\<newline>      "line": 4,\<newline>      "text": "fix this",\<newline>      "timestamp": "2024-05-01T10:00:00.000Z"\<newline>    }\<newline>  ]\<newline>}''\<close>

definition sample_parse :: "string \<Rightarrow> json option" where
  "sample_parse t =
     (if t = textOops then Some (JObj [(''notes'', JStr ''oops'')])
      else if t = textEmpty then Some (dataJson [])
      else if t = textA then Some (dataJson [noteA])
      else if t = textB then Some (dataJson [noteB])
      else if t = textAA then Some (dataJson [noteA, noteA])
      else if t = textBA then Some (dataJson [noteB, noteA])
      else None)"

definition sample_stringify :: "json \<Rightarrow> string" where
  "sample_stringify j =
     (if j = dataJson [] then textEmpty
      else if j = dataJson [noteA] then textA
      else if j = dataJson [noteB] then textB
      else if j = dataJson [noteA, noteA] then textAA
      else if j = dataJson [noteB, noteA] then textBA
      else ''null'')"

definition sampleEnv :: env where
  "sampleEnv =
     \<lparr>notesFile = samplePath, resolve = sample_resolve, JSON_parse = sample_parse,
      JSON_stringify = sample_stringify, localeCompare = strCompare\<rparr>"

text \<open>A file system that holds the notes file with content \<open>c\<close> and fails nowhere.\<close>

definition storeWith :: "string \<Rightarrow> fs" where
  "storeWith c = \<lparr>files = [samplePath \<mapsto> c], readErr = {}, writeErr = {}\<rparr>"

text \<open>A file system in which a backup of the sample notes file already exists.\<close>

definition clashStore :: fs where
  "clashStore =
     \<lparr>files = [samplePath \<mapsto> ''this is not json'',
               backupPath samplePath 1714557600000 \<mapsto> ''an older backup''],
      readErr = {}, writeErr = {}\<rparr>"

text \<open>A file system in which the temporary sibling of the notes file cannot be written.\<close>

definition denyStore :: fs where
  "denyStore =
     \<lparr>files = [samplePath \<mapsto> textEmpty], readErr = {},
      writeErr = {samplePath @ ''.tmp''}\<rparr>"


text \<open>A note whose text has 1001 characters.\<close>

definition longNote :: Note where
  "longNote = \<lparr>filePath = ''/work/a.ts'', line = 4, noteText = replicate 1001 CHR ''x'',
               timestamp = ''2024-05-01T10:00:00.000Z''\<rparr>"

text \<open>Two mouse clicks that place the caret, at different positions.\<close>

definition sampleClick :: SelectionEvent where
  "sampleClick =
     \<lparr>textEditor = Some ''/work/a.ts'', isEmpty = True, kind = Some Mouse, activeLine = 4,
      activeCharacter = 17\<rparr>"

definition otherClick :: SelectionEvent where
  "otherClick =
     \<lparr>textEditor = Some ''/work/a.ts'', isEmpty = True, kind = Some Mouse, activeLine = 9,
      activeCharacter = 2\<rparr>"

section \<open>Notions used in the statements\<close>

text \<open>
  The trimmed content of the notes file is corrupt when it does not parse or when the
  parsed value fails \<open>isValidNotesData\<close>.
\<close>

definition corrupt :: "env \<Rightarrow> string \<Rightarrow> bool" where
  "corrupt e d =
     (case JSON_parse e d of None \<Rightarrow> True | Some parsed \<Rightarrow> \<not> isValidNotesData parsed)"

text \<open>The key of a note: its resolved path and its line.\<close>

definition noteKey :: "env \<Rightarrow> Note \<Rightarrow> string \<times> int" where
  "noteKey e n = (resolve e (filePath n), line n)"

definition uniqueKeys :: "env \<Rightarrow> Note list \<Rightarrow> bool" where
  "uniqueKeys e ns = distinct (map (noteKey e) ns)"

text \<open>The same key, read off an element of the persisted array.\<close>

definition rawKey :: "env \<Rightarrow> json \<Rightarrow> string \<times> int" where
  "rawKey e j = (resolve e (strOf (getProp j ''filePath'')), numOf (getProp j ''line''))"

definition idempotent :: "(string \<Rightarrow> string) \<Rightarrow> bool" where
  "idempotent f = (\<forall>p. f (f p) = f p)"

text \<open>
  The collection over a run of the store: an upsert, a delete, and what saving and
  loading again does to a collection when the notes file is written and read back
  faithfully (the per-element validation is applied once more).
\<close>

datatype StoreOp = Upsert string int string string | Delete string int | Reload

fun applyOp :: "env \<Rightarrow> Note list \<Rightarrow> StoreOp \<Rightarrow> Note list" where
  "applyOp e ns (Upsert fp l t stamp) = upsertNotes e ns fp l t stamp"
| "applyOp e ns (Delete fp l) = removeNote e ns fp l"
| "applyOp e ns Reload = sanitizeNotes e (map noteJson ns)"

text \<open>
  \<open>JSON.stringify\<close> and \<open>JSON.parse\<close> are faithful on a document: the text written for
  it is not blank, and parsing the trimmed text gives the document back.
\<close>

definition roundTrips :: "env \<Rightarrow> json \<Rightarrow> bool" where
  "roundTrips e d =
     (trim (JSON_stringify e d) \<noteq> [] \<and>
      JSON_parse e (trim (JSON_stringify e d)) = Some d)"

text \<open>
  A line of the wrapped output fits the width, or it is one word of the input that is
  longer than the width.
\<close>

definition fitsOrLongWord :: "string \<Rightarrow> nat \<Rightarrow> string \<Rightarrow> bool" where
  "fitsOrLongWord t w ln =
     (length ln \<le> w \<or> (ln \<in> set (splitOn CHR '' '' t) \<and> w < length ln))"

text \<open>
  The greedy word wrap as the specification words it, on the list of words: a word is
  accumulated onto the current line while the length of the line, the length of the word
  and one fit the width; otherwise the line is flushed and the word starts a new line. A
  line that is empty is not flushed, and takes a word without a separating blank.
\<close>

definition flushLine :: "string \<Rightarrow> string list" where
  "flushLine cur = (if cur = [] then [] else [cur])"

definition joinWord :: "string \<Rightarrow> string \<Rightarrow> string" where
  "joinWord cur word = (if cur = [] then word else cur @ '' '' @ word)"

fun greedyWrap :: "nat \<Rightarrow> string \<Rightarrow> string list \<Rightarrow> string list" where
  "greedyWrap w cur [] = flushLine cur"
| "greedyWrap w cur (word # ws) =
     (if length cur + length word + 1 \<le> w then greedyWrap w (joinWord cur word) ws
      else flushLine cur @ greedyWrap w word ws)"

text \<open>
  At most one timer is set, and it is the one \<open>clickTimeout\<close> refers to.
\<close>

definition oneTimer :: "ClickHandler \<Rightarrow> bool" where
  "oneTimer h =
     ((clickTimeout h = None \<and> timers h = []) \<or>
      (\<exists>tm. timers h = [tm] \<and> clickTimeout h = Some (timerId tm)))"

section \<open>Evaluation and basic lemmas\<close>

lemmas decimal_eval =
  decimal.simps [of "numeral n" for n] decimal.simps [of "Suc 0"] decimal.simps [of 0]
  digitChar_def

lemmas fs_defs =
  existsSync_def readFileSync_def writeFileSync_def copyFileSync_def renameSync_def
  backupCorruptedFile_def backupAndReset_def safeReadFile_def atomicWriteFile_def

lemma trim_id:
  assumes "s = [] \<or> (\<not> isWhiteSpace (hd s) \<and> \<not> isWhiteSpace (last s))"
  shows "trim s = s"
proof (cases "s = []")
  case True
  then show ?thesis by (simp add: trim_def)
next
  case False
  with assms have h: "\<not> isWhiteSpace (hd s)" and l: "\<not> isWhiteSpace (last s)" by auto
  from h False have 1: "dropWhile isWhiteSpace s = s"
    by (simp add: dropWhile_eq_self_iff)
  from l False have 2: "dropWhile isWhiteSpace (rev s) = rev s"
    by (simp add: dropWhile_eq_self_iff hd_rev)
  show ?thesis by (simp add: trim_def 1 2)
qed

lemma last_dropWhile: "dropWhile P xs \<noteq> [] \<Longrightarrow> last (dropWhile P xs) = last xs"
  by (metis last_appendR takeWhile_dropWhile_id)

lemma trim_ends:
  "trim s = [] \<or> (\<not> isWhiteSpace (hd (trim s)) \<and> \<not> isWhiteSpace (last (trim s)))"
proof (cases "trim s = []")
  case True
  then show ?thesis by simp
next
  case False
  define a where "a = dropWhile isWhiteSpace s"
  define b where "b = dropWhile isWhiteSpace (rev a)"
  have r: "trim s = rev b" by (simp add: trim_def a_def b_def)
  with False have b: "b \<noteq> []" by simp
  then have ra: "rev a \<noteq> []" by (auto simp add: b_def)
  have "\<not> isWhiteSpace (hd b)" using b unfolding b_def by (rule hd_dropWhile)
  moreover have "last b = last (rev a)" using b unfolding b_def by (rule last_dropWhile)
  then have "last b = hd a" using ra by (simp add: last_rev)
  moreover have "\<not> isWhiteSpace (hd a)" using ra unfolding a_def by (simp add: hd_dropWhile)
  ultimately show ?thesis using b by (simp add: r hd_rev last_rev)
qed

lemma trim_idem: "trim (trim s) = trim s"
  using trim_ends [of s] by (rule trim_id)

lemma findIndex_None: "findIndex P xs = None \<longleftrightarrow> (\<forall>x\<in>set xs. \<not> P x)"
  by (induction xs) auto

lemma findIndex_Some:
  "findIndex P xs = Some i \<Longrightarrow> i < length xs \<and> P (xs ! i)"
proof (induction xs arbitrary: i)
  case Nil
  then show ?case by simp
next
  case (Cons x xs)
  then show ?case by (auto split: if_splits)
qed

lemma length_filter_eq: "length (filter P xs) = length xs \<longleftrightarrow> (\<forall>x\<in>set xs. P x)"
proof (induction xs)
  case Nil
  then show ?case by simp
next
  case (Cons x xs)
  have "length (filter P xs) \<noteq> Suc (length xs)"
    using length_filter_le [of P xs] by arith
  with Cons show ?case by auto
qed

lemma filter_update_unique:
  assumes "distinct (map f xs)" and "i < length xs" and "f (xs ! i) = k" and "f y = k"
  shows "filter (\<lambda>x. f x = k) (xs[i := y]) = [y]"
  using assms
proof (induction xs arbitrary: i)
  case Nil
  then show ?case by simp
next
  case (Cons x xs)
  show ?case
  proof (cases i)
    case 0
    with Cons.prems have "f x = k" and "k \<notin> f ` set xs" by auto
    then have "\<forall>z\<in>set xs. f z \<noteq> k" by blast
    then have "filter (\<lambda>x. f x = k) xs = []" by (simp add: filter_empty_conv)
    with 0 Cons.prems show ?thesis by simp
  next
    case (Suc j)
    with Cons.prems have j: "j < length xs" "f (xs ! j) = k" by auto
    then have "k \<in> f ` set xs" by (metis imageI nth_mem)
    with Cons.prems have "f x \<noteq> k" by auto
    with Suc Cons.prems j Cons.IH [of j] show ?thesis by simp
  qed
qed

lemma noteJson_inj: "noteJson a = noteJson b \<longleftrightarrow> a = b"
  by (cases a, cases b) (auto simp add: noteJson_def)

section \<open>Frame lemmas of the store\<close>

lemma backupPath_neq: "backupPath p now \<noteq> p"
  by (simp add: backupPath_def)

lemma isValidNotesData_dataJson: "isValidNotesData (dataJson ns)"
  by (simp add: isValidNotesData_def dataJson_def)

lemma notesOf_dataJson: "notesOf (dataJson ns) = map noteJson ns"
  by (simp add: notesOf_def dataJson_def)

lemma backup_frame:
  "readErr (backupAndReset e s now) = readErr s \<and>
   writeErr (backupAndReset e s now) = writeErr s \<and>
   files (backupAndReset e s now) (notesFile e) = files s (notesFile e)"
  by (simp add: fs_defs backupPath_neq split: option.splits)

lemma loadNotes_frame:
  "readErr (snd (loadNotes e s now)) = readErr s \<and>
   writeErr (snd (loadNotes e s now)) = writeErr s \<and>
   files (snd (loadNotes e s now)) (notesFile e) = files s (notesFile e)"
  using backup_frame [of e s now]
  by (simp add: loadNotes_def loadNotes_try_def split: option.splits res.splits)

lemma loadNotes_notes_cong:
  assumes "files s' (notesFile e) = files s (notesFile e)" and "readErr s' = readErr s"
  shows "fst (loadNotes e s' now') = fst (loadNotes e s now)"
  using assms
  by (simp add: loadNotes_def loadNotes_try_def safeReadFile_def existsSync_def
      readFileSync_def split: option.splits res.splits)

lemma loadNotes_cases:
  "fst (loadNotes e s now) = [] \<or> (\<exists>raw. fst (loadNotes e s now) = sanitizeNotes e raw)"
  by (auto simp add: loadNotes_def loadNotes_try_def split: option.splits res.splits)

lemma loadNotes_good:
  assumes "files s (notesFile e) = Some c" and "notesFile e \<notin> readErr s"
    and "trim c \<noteq> []" and "JSON_parse e (trim c) = Some (dataJson ns)"
  shows "loadNotes e s now = (sanitizeNotes e (map noteJson ns), s)"
  using assms
  by (simp add: loadNotes_def loadNotes_try_def safeReadFile_def existsSync_def
      readFileSync_def isValidNotesData_dataJson notesOf_dataJson)

lemma saveNotes_ok:
  assumes "notesFile e \<notin> writeErr s" and "notesFile e @ ''.tmp'' \<notin> writeErr s"
  shows "saveNotes e s ns =
    s\<lparr>files := (files s)(notesFile e @ ''.tmp'' := None,
                          notesFile e \<mapsto> JSON_stringify e (dataJson ns))\<rparr>"
  using assms
  by (simp add: saveNotes_def saveNotes_try_def isValidNotesData_dataJson fs_defs)

lemma getNotesForFile_subset:
  "set (fst (getNotesForFile e s now fp)) \<subseteq> set (fst (loadNotes e s now))"
  by (auto simp add: getNotesForFile_def Let_def split: prod.splits)

lemma getNotesForFile_snd: "snd (getNotesForFile e s now fp) = snd (loadNotes e s now)"
  by (simp add: getNotesForFile_def Let_def split: prod.splits)

section \<open>Keys\<close>

lemma sameKey_noteKey: "sameKey e p l n \<longleftrightarrow> noteKey e n = (p, l)"
  by (auto simp add: sameKey_def noteKey_def)

lemma upsertNotes_keys:
  assumes "idempotent (resolve e)" and "findIndex (sameKey e (resolve e fp) l) ns = Some i"
  shows "map (noteKey e) (upsertNotes e ns fp l t stamp) = map (noteKey e) ns"
proof -
  from findIndex_Some [OF assms(2)] have i: "i < length ns" and k: "noteKey e (ns ! i) = (resolve e fp, l)"
    by (simp_all add: sameKey_noteKey)
  have "noteKey e \<lparr>filePath = resolve e fp, line = l, noteText = trim t, timestamp = stamp\<rparr> = (resolve e fp, l)"
    using assms(1) by (simp add: noteKey_def idempotent_def)
  then have "map (noteKey e) (ns[i := \<lparr>filePath = resolve e fp, line = l, noteText = trim t, timestamp = stamp\<rparr>]) = (map (noteKey e) ns)[i := (resolve e fp, l)]"
    by (simp add: map_update)
  also have "\<dots> = map (noteKey e) ns"
    using i k by (metis list_update_id nth_map)
  finally show ?thesis using assms(2) by (simp add: upsertNotes_def Let_def)
qed

lemma upsertNotes_unique:
  assumes "idempotent (resolve e)" and "uniqueKeys e ns"
  shows "uniqueKeys e (upsertNotes e ns fp l t stamp)"
proof (cases "findIndex (sameKey e (resolve e fp) l) ns")
  case None
  then have "(resolve e fp, l) \<notin> set (map (noteKey e) ns)"
    by (auto simp add: findIndex_None sameKey_noteKey)
  moreover have "noteKey e \<lparr>filePath = resolve e fp, line = l, noteText = trim t, timestamp = stamp\<rparr> = (resolve e fp, l)"
    using assms(1) by (simp add: noteKey_def idempotent_def)
  ultimately show ?thesis
    using assms(2) None by (simp add: uniqueKeys_def upsertNotes_def Let_def)
next
  case (Some i)
  then show ?thesis
    using assms upsertNotes_keys [OF assms(1) Some] by (simp add: uniqueKeys_def)
qed

lemma removeNote_unique: "uniqueKeys e ns \<Longrightarrow> uniqueKeys e (removeNote e ns fp l)"
  by (simp add: uniqueKeys_def removeNote_def distinct_map_filter)

lemma sanitizeNote_key:
  "idempotent (resolve e) \<Longrightarrow> noteKey e (sanitizeNote e j) = rawKey e j"
  by (simp add: noteKey_def sanitizeNote_def rawKey_def idempotent_def)

lemma sanitizeNotes_keys:
  "idempotent (resolve e) \<Longrightarrow>
   map (noteKey e) (sanitizeNotes e raw) = map (rawKey e) (filter isValidNote raw)"
  by (simp add: sanitizeNotes_def sanitizeNote_key)

lemma rawKey_noteJson: "rawKey e (noteJson n) = noteKey e n"
  by (simp add: rawKey_def noteJson_def noteKey_def strOf_def numOf_def)

lemma reload_unique:
  assumes "idempotent (resolve e)" and "uniqueKeys e ns"
  shows "uniqueKeys e (sanitizeNotes e (map noteJson ns))"
proof -
  have "map (noteKey e) (sanitizeNotes e (map noteJson ns)) =
      map (noteKey e) (filter (\<lambda>n. isValidNote (noteJson n)) ns)"
    using assms(1)
    by (simp add: sanitizeNotes_keys filter_map comp_def rawKey_noteJson)
  then show ?thesis
    using assms(2) by (simp add: uniqueKeys_def distinct_map_filter)
qed

lemma applyOp_unique:
  assumes "idempotent (resolve e)" and "uniqueKeys e ns"
  shows "uniqueKeys e (foldl (applyOp e) ns ops)"
  using assms(2)
proof (induction ops arbitrary: ns)
  case Nil
  then show ?case by simp
next
  case (Cons op ops)
  have "uniqueKeys e (applyOp e ns op)"
    using assms(1) Cons.prems
    by (cases op) (simp_all add: upsertNotes_unique removeNote_unique reload_unique)
  then show ?case by (simp add: Cons.IH)
qed

lemma upsertNotes_filter:
  assumes "idempotent (resolve e)" and "uniqueKeys e ns"
  shows "filter (sameKey e (resolve e fp) l) (upsertNotes e ns fp l t stamp) =
    [\<lparr>filePath = resolve e fp, line = l, noteText = trim t, timestamp = stamp\<rparr>]"
proof -
  let ?new = "\<lparr>filePath = resolve e fp, line = l, noteText = trim t, timestamp = stamp\<rparr>"
  have new: "noteKey e ?new = (resolve e fp, l)"
    using assms(1) by (simp add: noteKey_def idempotent_def)
  have P: "sameKey e (resolve e fp) l = (\<lambda>x. noteKey e x = (resolve e fp, l))"
    by (rule ext) (simp add: sameKey_noteKey)
  show ?thesis
  proof (cases "findIndex (sameKey e (resolve e fp) l) ns")
    case None
    then have "filter (sameKey e (resolve e fp) l) ns = []"
      by (simp add: findIndex_None filter_empty_conv)
    with None new show ?thesis
      by (simp add: upsertNotes_def Let_def sameKey_noteKey)
  next
    case (Some i)
    from findIndex_Some [OF Some] have "i < length ns" "noteKey e (ns ! i) = (resolve e fp, l)"
      by (simp_all add: sameKey_noteKey)
    with assms(2) new have "filter (\<lambda>x. noteKey e x = (resolve e fp, l)) (ns[i := ?new]) = [?new]"
      unfolding uniqueKeys_def by (intro filter_update_unique)
    with Some show ?thesis by (simp add: upsertNotes_def Let_def P)
  qed
qed

lemma upsertNotes_set:
  "set (upsertNotes e ns fp l t stamp) \<subseteq>
     insert \<lparr>filePath = resolve e fp, line = l, noteText = trim t, timestamp = stamp\<rparr> (set ns)"
  using set_update_subset_insert [of ns]
  by (auto simp add: upsertNotes_def Let_def split: option.splits)

lemma upsertNotes_new:
  "\<lparr>filePath = resolve e fp, line = l, noteText = trim t, timestamp = stamp\<rparr>
     \<in> set (upsertNotes e ns fp l t stamp)"
proof (cases "findIndex (sameKey e (resolve e fp) l) ns")
  case None
  then show ?thesis by (simp add: upsertNotes_def Let_def)
next
  case (Some i)
  then have "i < length ns" by (simp add: findIndex_Some)
  then show ?thesis using Some by (simp add: upsertNotes_def Let_def set_update_memI)
qed

lemma sanitizeNotes_text:
  "n \<in> set (sanitizeNotes e raw) \<Longrightarrow> trim (noteText n) = noteText n \<and> noteText n \<noteq> []"
  by (auto simp add: sanitizeNotes_def sanitizeNote_def isValidNote_def trim_idem)

section \<open>The sample environment evaluated\<close>

lemma resolve_sampleEnv: "resolve sampleEnv = sample_resolve"
  by (simp add: sampleEnv_def)

lemma sample_resolve_idem: "idempotent sample_resolve"
  by (auto simp add: idempotent_def sample_resolve_def)

lemma resolve_a_ts: "resolve sampleEnv ''./a.ts'' = ''/work/a.ts''"
  by (simp add: resolve_sampleEnv sample_resolve_def)

lemma backupPath_sample:
  "backupPath samplePath 1714557600000 =
     ''/ext/bubulle-notes/.bubulle-notes.json.backup.1714557600000''"
  by (simp add: backupPath_def samplePath_def decimal_eval)

lemma trim_textOops: "trim textOops = textOops"
  by (simp add: trim_def isWhiteSpace_def textOops_def)

lemma trim_textEmpty: "trim textEmpty = textEmpty"
  by (rule trim_id) (simp add: textEmpty_def isWhiteSpace_def)

lemma trim_textA: "trim textA = textA"
  by (rule trim_id) (simp add: textA_def isWhiteSpace_def)

lemma trim_textAA: "trim textAA = textAA"
  by (rule trim_id) (simp add: textAA_def isWhiteSpace_def)

lemma trim_textBA: "trim textBA = textBA"
  by (rule trim_id) (simp add: textBA_def isWhiteSpace_def)

lemma trim_fix_this: "trim ''fix this'' = ''fix this''"
  by (rule trim_id) (simp add: isWhiteSpace_def)

lemma trim_fix_this_better: "trim ''fix this better'' = ''fix this better''"
  by (rule trim_id) (simp add: isWhiteSpace_def)

lemma parse_textEmpty: "JSON_parse sampleEnv textEmpty = Some (dataJson [])"
  by (simp add: sampleEnv_def sample_parse_def textOops_def textEmpty_def)

lemma parse_textA: "JSON_parse sampleEnv textA = Some (dataJson [noteA])"
  by (simp add: sampleEnv_def sample_parse_def textA_def textOops_def textEmpty_def)

lemma parse_textAA: "JSON_parse sampleEnv textAA = Some (dataJson [noteA, noteA])"
  by (simp add: sampleEnv_def sample_parse_def textA_def textB_def textAA_def textOops_def
      textEmpty_def)

lemma parse_textBA: "JSON_parse sampleEnv textBA = Some (dataJson [noteB, noteA])"
  by (simp add: sampleEnv_def sample_parse_def textA_def textB_def textAA_def textBA_def
      textOops_def textEmpty_def)

lemma noteA_neq_noteB: "noteA \<noteq> noteB"
  by (simp add: noteA_def noteB_def)

lemma stringify_empty: "JSON_stringify sampleEnv (dataJson []) = textEmpty"
  by (simp add: sampleEnv_def sample_stringify_def)

lemma stringify_A: "JSON_stringify sampleEnv (dataJson [noteA]) = textA"
  by (simp add: sampleEnv_def sample_stringify_def dataJson_def)

lemma stringify_B: "JSON_stringify sampleEnv (dataJson [noteB]) = textB"
  using noteA_neq_noteB
  by (auto simp add: sampleEnv_def sample_stringify_def dataJson_def noteJson_inj)

lemma stringify_AA: "JSON_stringify sampleEnv (dataJson [noteA, noteA]) = textAA"
  by (simp add: sampleEnv_def sample_stringify_def dataJson_def)

lemma stringify_BA: "JSON_stringify sampleEnv (dataJson [noteB, noteA]) = textBA"
  using noteA_neq_noteB
  by (auto simp add: sampleEnv_def sample_stringify_def dataJson_def noteJson_inj)

lemma valid_noteA: "isValidNote (noteJson noteA) \<and> sanitizeNote sampleEnv (noteJson noteA) = noteA"
  by (simp add: isValidNote_def sanitizeNote_def noteJson_def noteA_def
      isString_def isNumber_def strOf_def numOf_def trim_fix_this resolve_sampleEnv
      sample_resolve_def)

lemma valid_noteB: "isValidNote (noteJson noteB) \<and> sanitizeNote sampleEnv (noteJson noteB) = noteB"
  by (simp add: isValidNote_def sanitizeNote_def noteJson_def noteB_def
      isString_def isNumber_def strOf_def numOf_def trim_fix_this_better resolve_sampleEnv
      sample_resolve_def)

lemma sanitize_noteA: "sanitizeNotes sampleEnv [noteJson noteA] = [noteA]"
  by (simp add: sanitizeNotes_def isValidNote_def sanitizeNote_def noteJson_def noteA_def
      isString_def isNumber_def strOf_def numOf_def trim_fix_this resolve_sampleEnv
      sample_resolve_def)

lemma sameKey_noteA: "sameKey sampleEnv ''/work/a.ts'' 4 noteA"
  by (simp add: sameKey_def noteA_def resolve_sampleEnv sample_resolve_def)

lemma sameKey_noteB: "sameKey sampleEnv ''/work/a.ts'' 4 noteB"
  by (simp add: sameKey_def noteB_def resolve_sampleEnv sample_resolve_def)

lemma load_sample:
  assumes "trim c = c" and "c \<noteq> []" and "JSON_parse sampleEnv c = Some (dataJson ns)"
    and "\<forall>n\<in>set ns. isValidNote (noteJson n) \<and> sanitizeNote sampleEnv (noteJson n) = n"
  shows "loadNotes sampleEnv (storeWith c) now = (ns, storeWith c)"
proof -
  have "sanitizeNotes sampleEnv (map noteJson ns) = ns"
    using assms(4) by (simp add: sanitizeNotes_def filter_map comp_def map_idI)
  moreover have "loadNotes sampleEnv (storeWith c) now =
      (sanitizeNotes sampleEnv (map noteJson ns), storeWith c)"
    using assms(1-3)
    by (intro loadNotes_good [where c = c]) (simp_all add: storeWith_def sampleEnv_def)
  ultimately show ?thesis by simp
qed

lemma save_sample:
  "saveNotes sampleEnv (storeWith c) ns = storeWith (JSON_stringify sampleEnv (dataJson ns))"
proof -
  have "saveNotes sampleEnv (storeWith c) ns =
      (storeWith c)\<lparr>files := (files (storeWith c))(notesFile sampleEnv @ ''.tmp'' := None,
        notesFile sampleEnv \<mapsto> JSON_stringify sampleEnv (dataJson ns))\<rparr>"
    by (rule saveNotes_ok) (simp_all add: storeWith_def)
  moreover have "(files (storeWith c))(notesFile sampleEnv @ ''.tmp'' := None,
      notesFile sampleEnv \<mapsto> d) = [samplePath \<mapsto> d]" for d
    by (rule ext) (simp add: storeWith_def sampleEnv_def)
  ultimately show ?thesis by (simp add: storeWith_def)
qed

lemma load_textEmpty: "loadNotes sampleEnv (storeWith textEmpty) now = ([], storeWith textEmpty)"
  by (rule load_sample) (simp_all add: trim_textEmpty parse_textEmpty, simp add: textEmpty_def)

lemma load_textA: "loadNotes sampleEnv (storeWith textA) now = ([noteA], storeWith textA)"
proof -
  have "safeReadFile (storeWith textA) (notesFile sampleEnv) = Some textA"
    by (simp add: safeReadFile_def existsSync_def readFileSync_def storeWith_def
        sampleEnv_def trim_textA)
  moreover have "textA \<noteq> []" by (simp add: textA_def)
  ultimately show ?thesis
    using sanitize_noteA
    by (simp add: loadNotes_def loadNotes_try_def parse_textA isValidNotesData_dataJson
        notesOf_dataJson)
qed

lemma load_textAA:
  "loadNotes sampleEnv (storeWith textAA) now = ([noteA, noteA], storeWith textAA)"
  by (rule load_sample) (simp_all add: trim_textAA parse_textAA valid_noteA, simp add: textAA_def)

lemma load_textBA:
  "loadNotes sampleEnv (storeWith textBA) now = ([noteB, noteA], storeWith textBA)"
  by (rule load_sample)
    (simp_all add: trim_textBA parse_textBA valid_noteA valid_noteB, simp add: textBA_def)

lemma load_denyStore: "loadNotes sampleEnv denyStore now = ([], denyStore)"
proof -
  have "safeReadFile denyStore (notesFile sampleEnv) = Some textEmpty"
    by (simp add: safeReadFile_def existsSync_def readFileSync_def denyStore_def
        sampleEnv_def trim_textEmpty)
  moreover have "textEmpty \<noteq> []" by (simp add: textEmpty_def)
  ultimately show ?thesis
    by (simp add: loadNotes_def loadNotes_try_def parse_textEmpty isValidNotesData_dataJson
        notesOf_dataJson sanitizeNotes_def)
qed

lemma upsert_first:
  "upsertNotes sampleEnv [] ''./a.ts'' 4 ''fix this'' ''2024-05-01T10:00:00.000Z'' = [noteA]"
  by (simp add: upsertNotes_def Let_def trim_fix_this resolve_sampleEnv sample_resolve_def
      noteA_def)

lemma upsert_second:
  "upsertNotes sampleEnv (noteA # ns) ''./a.ts'' 4 ''fix this better''
     ''2024-05-01T10:05:00.000Z'' = noteB # ns"
  by (simp add: upsertNotes_def Let_def resolve_a_ts sameKey_noteA trim_fix_this_better
      noteB_def)

lemma upsert_again:
  "upsertNotes sampleEnv (noteA # ns) ''./a.ts'' 4 ''fix this''
     ''2024-05-01T10:00:00.000Z'' = noteA # ns"
  by (simp add: upsertNotes_def Let_def resolve_a_ts sameKey_noteA trim_fix_this)
    (simp add: noteA_def)

section \<open>Corrupt and blank notes files\<close>

text \<open>
  Claim C1, amended. When the notes file is present and readable, its content is not
  empty after trimming, and the trimmed content does not parse or has not the shape
  \<open>{ notes: array }\<close>, then \<open>loadNotes\<close> returns the empty collection (it is a total
  function: nothing is raised). If moreover no file exists at the backup path of the
  current clock reading and that path can be written, the file system after the call is
  the one before it with exactly one more file, the copy of the notes file at the backup
  path.
\<close>

theorem loadNotes_corrupt:
  assumes "files s (notesFile e) = Some c" and "notesFile e \<notin> readErr s"
    and "trim c \<noteq> []" and "corrupt e (trim c)"
  shows "fst (loadNotes e s now) = [] \<and>
    (files s (backupPath (notesFile e) now) = None \<and>
     backupPath (notesFile e) now \<notin> writeErr s \<longrightarrow>
       snd (loadNotes e s now) =
         s\<lparr>files := (files s)(backupPath (notesFile e) now \<mapsto> c)\<rparr>)"
  using assms
  by (auto simp add: loadNotes_def loadNotes_try_def corrupt_def fs_defs split: option.splits)

theorem loadNotes_corrupt_witness:
  "files (storeWith textOops) (notesFile sampleEnv) = Some textOops
   \<and> notesFile sampleEnv \<notin> readErr (storeWith textOops)
   \<and> trim textOops \<noteq> [] \<and> corrupt sampleEnv (trim textOops)
   \<and> files (storeWith textOops) (backupPath (notesFile sampleEnv) 1714557600000) = None
   \<and> backupPath (notesFile sampleEnv) 1714557600000 \<notin> writeErr (storeWith textOops)
   \<and> loadNotes sampleEnv (storeWith textOops) 1714557600000 =
       ([], (storeWith textOops)\<lparr>files := (files (storeWith textOops))
          (backupPath (notesFile sampleEnv) 1714557600000 \<mapsto> textOops)\<rparr>)
   \<and> backupPath (notesFile sampleEnv) 1714557600000 =
       ''/ext/bubulle-notes/.bubulle-notes.json.backup.1714557600000''"
proof -
  have 0: "backupPath (notesFile sampleEnv) 1714557600000 =
      ''/ext/bubulle-notes/.bubulle-notes.json.backup.1714557600000''"
    using backupPath_sample by (simp add: sampleEnv_def)
  have 1: "files (storeWith textOops) (notesFile sampleEnv) = Some textOops"
    by (simp add: storeWith_def sampleEnv_def)
  have 2: "notesFile sampleEnv \<notin> readErr (storeWith textOops)"
    by (simp add: storeWith_def)
  have 3: "trim textOops \<noteq> []"
    unfolding trim_textOops by (simp add: textOops_def)
  have 4: "corrupt sampleEnv (trim textOops)"
    unfolding trim_textOops
    by (simp add: corrupt_def sampleEnv_def sample_parse_def isValidNotesData_def)
  have 5: "files (storeWith textOops) (backupPath (notesFile sampleEnv) 1714557600000) = None"
    by (simp add: storeWith_def sampleEnv_def backupPath_def samplePath_def)
  have 6: "backupPath (notesFile sampleEnv) 1714557600000 \<notin> writeErr (storeWith textOops)"
    by (simp add: storeWith_def)
  show ?thesis
    using loadNotes_corrupt [OF 1 2 3 4, of 1714557600000] 0 1 2 3 4 5 6
    by (simp add: prod_eq_iff)
qed

text \<open>
  Claim C1 as stated fails in two ways. A notes file that holds only blanks is present
  and is not JSON, yet no backup is made. And when a file already exists at the backup
  path of the current clock reading, the copy overwrites it and no new file appears.
\<close>

theorem loadNotes_backup_counterexample:
  "(files (storeWith ''   '') samplePath = Some ''   ''
    \<and> JSON_parse sampleEnv ''   '' = None
    \<and> loadNotes sampleEnv (storeWith ''   '') 1714557600000 = ([], storeWith ''   ''))
   \<and> (files clashStore samplePath = Some ''this is not json''
    \<and> JSON_parse sampleEnv ''this is not json'' = None
    \<and> files clashStore (backupPath samplePath 1714557600000) = Some ''an older backup''
    \<and> files (snd (loadNotes sampleEnv clashStore 1714557600000))
         (backupPath samplePath 1714557600000) = Some ''this is not json''
    \<and> dom (files (snd (loadNotes sampleEnv clashStore 1714557600000))) =
        dom (files clashStore))"
proof -
  have a: "files (storeWith ''   '') samplePath = Some ''   ''"
    by (simp add: storeWith_def)
  have b: "JSON_parse sampleEnv ''   '' = None"
    by (simp add: sampleEnv_def sample_parse_def textOops_def textEmpty_def textA_def
        textB_def textAA_def textBA_def)
  have c: "loadNotes sampleEnv (storeWith ''   '') 1714557600000 = ([], storeWith ''   '')"
    by (simp add: loadNotes_def loadNotes_try_def fs_defs storeWith_def sampleEnv_def
        trim_def isWhiteSpace_def)
  have d: "files clashStore samplePath = Some ''this is not json''"
    by (simp add: clashStore_def backupPath_def samplePath_def)
  have e: "JSON_parse sampleEnv ''this is not json'' = None"
    by (simp add: sampleEnv_def sample_parse_def textOops_def textEmpty_def textA_def
        textB_def textAA_def textBA_def)
  have f: "files clashStore (backupPath samplePath 1714557600000) = Some ''an older backup''"
    by (simp add: clashStore_def)
  have t: "trim ''this is not json'' = ''this is not json''"
    by (simp add: trim_def isWhiteSpace_def)
  have g: "snd (loadNotes sampleEnv clashStore 1714557600000) =
      clashStore\<lparr>files := (files clashStore)
        (backupPath samplePath 1714557600000 \<mapsto> ''this is not json'')\<rparr>"
    using d e
    by (simp add: loadNotes_def loadNotes_try_def fs_defs sampleEnv_def t clashStore_def)
  have h: "dom (files (snd (loadNotes sampleEnv clashStore 1714557600000))) =
      dom (files clashStore)"
    unfolding g by (auto simp add: clashStore_def)
  show ?thesis using a b c d e f h by (simp add: g)
qed

text \<open>
  Claim C10. When the notes file exists and its content is empty or white space only,
  \<open>loadNotes\<close> returns the empty collection and leaves the file system as it is: no
  backup file is created.
\<close>

theorem loadNotes_blank:
  assumes "files s (notesFile e) = Some c" and "trim c = []"
  shows "loadNotes e s now = ([], s)"
  using assms
  by (simp add: loadNotes_def loadNotes_try_def safeReadFile_def existsSync_def
      readFileSync_def split: res.splits)

theorem loadNotes_blank_witness:
  "files (storeWith [CHR '' '', CHR 0x0A, CHR '' '']) (notesFile sampleEnv) =
     Some [CHR '' '', CHR 0x0A, CHR '' '']
   \<and> trim [CHR '' '', CHR 0x0A, CHR '' ''] = []
   \<and> loadNotes sampleEnv (storeWith [CHR '' '', CHR 0x0A, CHR '' '']) 1714557600000 =
       ([], storeWith [CHR '' '', CHR 0x0A, CHR '' ''])"
proof -
  have f: "files (storeWith [CHR '' '', CHR 0x0A, CHR '' '']) (notesFile sampleEnv) =
      Some [CHR '' '', CHR 0x0A, CHR '' '']"
    by (simp add: storeWith_def sampleEnv_def)
  have t: "trim [CHR '' '', CHR 0x0A, CHR '' ''] = []"
    by (simp add: trim_def isWhiteSpace_def)
  show ?thesis using loadNotes_blank [OF f t] f t by simp
qed

section \<open>Uniqueness of keys\<close>

text \<open>
  Claim C2. With \<open>path.resolve\<close> idempotent, uniqueness of the keys is preserved by
  every operation. From a well-formed notes file \<open>loadNotes\<close> returns \<open>sanitizeNotes\<close> of
  the persisted array, which has unique keys when the valid persisted elements have. \<open>addOrUpdateNote\<close> saves
  \<open>upsertNotes\<close> of the loaded collection and \<open>deleteNote\<close>, when it saves, saves
  \<open>removeNote\<close> of it; both have unique keys when the collection they start from has.
  Hence the collection has unique keys after every run of upserts, deletes and reloads
  that starts from the empty store. An upsert whose key is present replaces the entry at
  its index and appends nothing.
\<close>

theorem unique_keys_preserved:
  assumes "idempotent (resolve e)"
  shows "(files s (notesFile e) = Some c \<and> notesFile e \<notin> readErr s \<and> trim c \<noteq> [] \<and>
          JSON_parse e (trim c) = Some parsed \<and> isValidNotesData parsed \<longrightarrow>
            fst (loadNotes e s now) = sanitizeNotes e (notesOf parsed))
    \<and> (distinct (map (rawKey e) (filter isValidNote raw)) \<longrightarrow>
          uniqueKeys e (sanitizeNotes e raw))
    \<and> snd (addOrUpdateNote e s now stamp fp l t) =
        saveNotes e (snd (loadNotes e s now))
          (upsertNotes e (fst (loadNotes e s now)) fp l t stamp)
    \<and> (fst (deleteNote e s now fp l) \<longrightarrow>
          snd (deleteNote e s now fp l) =
            saveNotes e (snd (loadNotes e s now)) (removeNote e (fst (loadNotes e s now)) fp l))
    \<and> (uniqueKeys e ns \<longrightarrow>
          uniqueKeys e (upsertNotes e ns fp l t stamp) \<and>
          uniqueKeys e (removeNote e ns fp l))
    \<and> uniqueKeys e (foldl (applyOp e) [] ops)
    \<and> (list_ex (sameKey e (resolve e fp) l) ns \<longrightarrow>
          (\<exists>i<length ns. sameKey e (resolve e fp) l (ns ! i) \<and>
             upsertNotes e ns fp l t stamp =
               ns[i := \<lparr>filePath = resolve e fp, line = l, noteText = trim t,
                        timestamp = stamp\<rparr>]))"
proof (intro conjI impI)
  assume "files s (notesFile e) = Some c \<and> notesFile e \<notin> readErr s \<and> trim c \<noteq> [] \<and>
      JSON_parse e (trim c) = Some parsed \<and> isValidNotesData parsed"
  then show "fst (loadNotes e s now) = sanitizeNotes e (notesOf parsed)"
    by (simp add: loadNotes_def loadNotes_try_def safeReadFile_def existsSync_def
        readFileSync_def)
next
  assume "distinct (map (rawKey e) (filter isValidNote raw))"
  then show "uniqueKeys e (sanitizeNotes e raw)"
    using assms by (simp add: uniqueKeys_def sanitizeNotes_keys)
next
  show "snd (addOrUpdateNote e s now stamp fp l t) =
      saveNotes e (snd (loadNotes e s now))
        (upsertNotes e (fst (loadNotes e s now)) fp l t stamp)"
    by (simp add: addOrUpdateNote_def split: prod.splits)
next
  assume "fst (deleteNote e s now fp l)"
  then show "snd (deleteNote e s now fp l) =
      saveNotes e (snd (loadNotes e s now)) (removeNote e (fst (loadNotes e s now)) fp l)"
    by (simp add: deleteNote_def Let_def split: prod.splits if_splits)
next
  assume "uniqueKeys e ns"
  then show "uniqueKeys e (upsertNotes e ns fp l t stamp)"
    using assms by (rule upsertNotes_unique [rotated])
next
  assume "uniqueKeys e ns"
  then show "uniqueKeys e (removeNote e ns fp l)"
    by (rule removeNote_unique)
next
  show "uniqueKeys e (foldl (applyOp e) [] ops)"
    using assms by (rule applyOp_unique) (simp add: uniqueKeys_def)
next
  assume "list_ex (sameKey e (resolve e fp) l) ns"
  then obtain i where i: "findIndex (sameKey e (resolve e fp) l) ns = Some i"
    by (cases "findIndex (sameKey e (resolve e fp) l) ns")
      (auto simp add: findIndex_None list_ex_iff)
  from findIndex_Some [OF i] i
  show "\<exists>i<length ns. sameKey e (resolve e fp) l (ns ! i) \<and>
      upsertNotes e ns fp l t stamp =
        ns[i := \<lparr>filePath = resolve e fp, line = l, noteText = trim t, timestamp = stamp\<rparr>]"
    by (auto simp add: upsertNotes_def Let_def)
qed

theorem unique_keys_preserved_witness:
  "idempotent (resolve sampleEnv)
   \<and> files (storeWith textA) (notesFile sampleEnv) = Some textA
   \<and> notesFile sampleEnv \<notin> readErr (storeWith textA) \<and> trim textA \<noteq> []
   \<and> JSON_parse sampleEnv (trim textA) = Some (dataJson [noteA])
   \<and> isValidNotesData (dataJson [noteA])
   \<and> fst (loadNotes sampleEnv (storeWith textA) 1714557600000) =
        sanitizeNotes sampleEnv (notesOf (dataJson [noteA]))
   \<and> distinct (map (rawKey sampleEnv) (filter isValidNote [noteJson noteA]))
   \<and> uniqueKeys sampleEnv (sanitizeNotes sampleEnv [noteJson noteA])
   \<and> uniqueKeys sampleEnv [noteA]
   \<and> uniqueKeys sampleEnv (upsertNotes sampleEnv [noteA] ''./a.ts'' 4 ''fix this better''
        ''2024-05-01T10:05:00.000Z'')
   \<and> uniqueKeys sampleEnv (removeNote sampleEnv [noteA] ''./a.ts'' 4)
   \<and> list_ex (sameKey sampleEnv (resolve sampleEnv ''./a.ts'') 4) [noteA]
   \<and> upsertNotes sampleEnv [noteA] ''./a.ts'' 4 ''fix this better''
        ''2024-05-01T10:05:00.000Z'' = [noteB]
   \<and> addOrUpdateNote sampleEnv (storeWith textA) 1714557600000 ''2024-05-01T10:05:00.000Z''
        ''./a.ts'' 4 ''fix this better'' = (True, storeWith textB)
   \<and> deleteNote sampleEnv (storeWith textA) 1714557600000 ''./a.ts'' 4 =
        (True, storeWith textEmpty)
   \<and> foldl (applyOp sampleEnv) []
        [Upsert ''./a.ts'' 4 ''fix this'' ''2024-05-01T10:00:00.000Z'', Reload,
         Upsert ''./a.ts'' 4 ''fix this better'' ''2024-05-01T10:05:00.000Z''] = [noteB]"
proof -
  have run: "foldl (applyOp sampleEnv) []
      [Upsert ''./a.ts'' 4 ''fix this'' ''2024-05-01T10:00:00.000Z'', Reload,
       Upsert ''./a.ts'' 4 ''fix this better'' ''2024-05-01T10:05:00.000Z''] = [noteB]"
    by (simp add: upsert_first sanitize_noteA upsert_second)
  have 1: "idempotent (resolve sampleEnv)"
    by (simp add: resolve_sampleEnv sample_resolve_idem)
  have 2: "distinct (map (rawKey sampleEnv) (filter isValidNote [noteJson noteA]))"
    by simp
  have 3: "uniqueKeys sampleEnv [noteA]"
    by (simp add: uniqueKeys_def)
  have 4: "list_ex (sameKey sampleEnv (resolve sampleEnv ''./a.ts'') 4) [noteA]"
    by (simp add: resolve_a_ts sameKey_noteA)
  have rm: "removeNote sampleEnv [noteA] ''./a.ts'' 4 = []"
    by (simp add: removeNote_def resolve_a_ts sameKey_noteA)
  have d: "deleteNote sampleEnv (storeWith textA) 1714557600000 ''./a.ts'' 4 =
      (True, storeWith textEmpty)"
    by (simp add: deleteNote_def load_textA rm save_sample stringify_empty)
  have a: "addOrUpdateNote sampleEnv (storeWith textA) 1714557600000
      ''2024-05-01T10:05:00.000Z'' ''./a.ts'' 4 ''fix this better'' = (True, storeWith textB)"
    by (simp add: addOrUpdateNote_def load_textA upsert_second save_sample stringify_B)
  have 5: "files (storeWith textA) (notesFile sampleEnv) = Some textA"
    by (simp add: storeWith_def sampleEnv_def)
  have 6: "notesFile sampleEnv \<notin> readErr (storeWith textA)"
    by (simp add: storeWith_def)
  have 7: "trim textA \<noteq> []"
    by (simp add: trim_textA) (simp add: textA_def)
  have 8: "JSON_parse sampleEnv (trim textA) = Some (dataJson [noteA])"
    by (simp add: trim_textA parse_textA)
  from unique_keys_preserved [OF 1, where raw = "[noteJson noteA]" and ns = "[noteA]"
      and fp = "''./a.ts''" and l = 4 and t = "''fix this better''"
      and stamp = "''2024-05-01T10:05:00.000Z''" and s = "storeWith textA"
      and now = 1714557600000 and c = textA and parsed = "dataJson [noteA]"] 2 3 4 5 6 7 8
    isValidNotesData_dataJson [of "[noteA]"]
  have "fst (loadNotes sampleEnv (storeWith textA) 1714557600000) =
        sanitizeNotes sampleEnv (notesOf (dataJson [noteA]))
      \<and> uniqueKeys sampleEnv (sanitizeNotes sampleEnv [noteJson noteA])
      \<and> uniqueKeys sampleEnv (upsertNotes sampleEnv [noteA] ''./a.ts'' 4 ''fix this better''
          ''2024-05-01T10:05:00.000Z'')
      \<and> uniqueKeys sampleEnv (removeNote sampleEnv [noteA] ''./a.ts'' 4)"
    by blast
  with 1 2 3 4 5 6 7 8 a d run show ?thesis
    by (simp add: isValidNotesData_dataJson upsert_second)
qed

section \<open>Upserting\<close>

text \<open>
  Claim C3 does not hold of the code. In a file system where the temporary file cannot be
  written, the save fails (its \<open>try\<close> body throws), the notes file is unchanged, and
  \<open>addOrUpdateNote\<close> still returns \<open>true\<close>.
\<close>

theorem addOrUpdateNote_failed_save:
  "fst (saveNotes_try sampleEnv denyStore [noteA]) = Throw FsError
   \<and> addOrUpdateNote sampleEnv denyStore 1714557600000 ''2024-05-01T10:00:00.000Z''
        ''./a.ts'' 4 ''fix this'' = (True, denyStore)"
proof -
  have t: "notesFile sampleEnv @ ''.tmp'' \<in> writeErr denyStore"
    by (simp add: denyStore_def sampleEnv_def)
  have s: "saveNotes_try sampleEnv denyStore [noteA] = (Throw FsError, denyStore)"
    using t by (simp add: saveNotes_try_def isValidNotesData_dataJson atomicWriteFile_def
        writeFileSync_def)
  show ?thesis
    by (simp add: addOrUpdateNote_def load_denyStore upsert_first saveNotes_def s)
qed

text \<open>
  Claim C4, amended. Let the loaded collection have unique keys, let the notes file be
  readable and writable, and let \<open>JSON.stringify\<close> and \<open>JSON.parse\<close> be faithful on the
  document the first call writes. Then two calls of \<open>addOrUpdateNote\<close> for the same path
  and line both return \<open>true\<close>, and the collection the second call writes to the notes
  file holds exactly one note with that key: its text is the trimmed second text and its
  timestamp is the one of the second call.
\<close>

theorem upsert_twice:
  assumes "idempotent (resolve e)"
    and "uniqueKeys e (fst (loadNotes e s now1))"
    and "notesFile e \<notin> readErr s"
    and "notesFile e \<notin> writeErr s" and "notesFile e @ ''.tmp'' \<notin> writeErr s"
    and "roundTrips e (dataJson (upsertNotes e (fst (loadNotes e s now1)) p l t1 stamp1))"
  shows "fst (addOrUpdateNote e s now1 stamp1 p l t1) \<and>
    fst (addOrUpdateNote e (snd (addOrUpdateNote e s now1 stamp1 p l t1)) now2 stamp2 p l t2) \<and>
    files (snd (addOrUpdateNote e (snd (addOrUpdateNote e s now1 stamp1 p l t1))
                  now2 stamp2 p l t2)) (notesFile e) =
      Some (JSON_stringify e (dataJson
        (upsertNotes e (fst (loadNotes e (snd (addOrUpdateNote e s now1 stamp1 p l t1)) now2))
           p l t2 stamp2))) \<and>
    filter (sameKey e (resolve e p) l)
      (upsertNotes e (fst (loadNotes e (snd (addOrUpdateNote e s now1 stamp1 p l t1)) now2))
         p l t2 stamp2) =
      [\<lparr>filePath = resolve e p, line = l, noteText = trim t2, timestamp = stamp2\<rparr>]"
proof -
  obtain ns0 s0 where L0: "loadNotes e s now1 = (ns0, s0)" by (cases "loadNotes e s now1")
  define ns1 where "ns1 = upsertNotes e ns0 p l t1 stamp1"
  define s1 where "s1 = saveNotes e s0 ns1"
  have fr0: "readErr s0 = readErr s" "writeErr s0 = writeErr s"
    using loadNotes_frame [of e s now1] by (simp_all add: L0)
  have A1: "addOrUpdateNote e s now1 stamp1 p l t1 = (True, s1)"
    by (simp add: addOrUpdateNote_def L0 ns1_def s1_def)
  have s1: "s1 = s0\<lparr>files := (files s0)(notesFile e @ ''.tmp'' := None,
      notesFile e \<mapsto> JSON_stringify e (dataJson ns1))\<rparr>"
    unfolding s1_def using assms(4,5) by (intro saveNotes_ok) (simp_all add: fr0)
  have u1: "uniqueKeys e ns1"
    using assms(1,2) by (simp add: ns1_def L0 upsertNotes_unique)
  have rt: "roundTrips e (dataJson ns1)"
    using assms(6) by (simp add: L0 ns1_def)
  have L1: "loadNotes e s1 now2 = (sanitizeNotes e (map noteJson ns1), s1)"
    using rt assms(3)
    by (intro loadNotes_good [where c = "JSON_stringify e (dataJson ns1)"])
      (simp_all add: s1 fr0 roundTrips_def)
  define ns2 where "ns2 = upsertNotes e (sanitizeNotes e (map noteJson ns1)) p l t2 stamp2"
  have A2: "addOrUpdateNote e s1 now2 stamp2 p l t2 = (True, saveNotes e s1 ns2)"
    by (simp add: addOrUpdateNote_def L1 ns2_def)
  have w1: "notesFile e \<notin> writeErr s1" "notesFile e @ ''.tmp'' \<notin> writeErr s1"
    using assms(4,5) by (simp_all add: s1 fr0)
  have f2: "files (saveNotes e s1 ns2) (notesFile e) = Some (JSON_stringify e (dataJson ns2))"
    by (simp add: saveNotes_ok [OF w1])
  have one: "filter (sameKey e (resolve e p) l) ns2 =
      [\<lparr>filePath = resolve e p, line = l, noteText = trim t2, timestamp = stamp2\<rparr>]"
    unfolding ns2_def using assms(1) u1 by (intro upsertNotes_filter reload_unique)
  show ?thesis
    using f2 one by (simp add: A1 A2 L1 ns2_def)
qed

theorem upsert_twice_witness:
  "idempotent (resolve sampleEnv)
   \<and> uniqueKeys sampleEnv (fst (loadNotes sampleEnv (storeWith textEmpty) 1714557600000))
   \<and> notesFile sampleEnv \<notin> readErr (storeWith textEmpty)
   \<and> notesFile sampleEnv \<notin> writeErr (storeWith textEmpty)
   \<and> notesFile sampleEnv @ ''.tmp'' \<notin> writeErr (storeWith textEmpty)
   \<and> roundTrips sampleEnv (dataJson [noteA])
   \<and> addOrUpdateNote sampleEnv (storeWith textEmpty) 1714557600000
        ''2024-05-01T10:00:00.000Z'' ''./a.ts'' 4 ''fix this'' = (True, storeWith textA)
   \<and> files (snd (addOrUpdateNote sampleEnv (storeWith textA) 1714557900000
        ''2024-05-01T10:05:00.000Z'' ''./a.ts'' 4 ''fix this better'')) (notesFile sampleEnv) =
        Some textB
   \<and> filter (sameKey sampleEnv (resolve sampleEnv ''./a.ts'') 4)
        (upsertNotes sampleEnv (fst (loadNotes sampleEnv (storeWith textA) 1714557900000))
           ''./a.ts'' 4 ''fix this better'' ''2024-05-01T10:05:00.000Z'') = [noteB]"
proof -
  have 1: "idempotent (resolve sampleEnv)"
    by (simp add: resolve_sampleEnv sample_resolve_idem)
  have 2: "uniqueKeys sampleEnv (fst (loadNotes sampleEnv (storeWith textEmpty) 1714557600000))"
    by (simp add: load_textEmpty uniqueKeys_def)
  have 3: "notesFile sampleEnv \<notin> readErr (storeWith textEmpty)"
    by (simp add: storeWith_def)
  have 4: "notesFile sampleEnv \<notin> writeErr (storeWith textEmpty)"
    by (simp add: storeWith_def)
  have 5: "notesFile sampleEnv @ ''.tmp'' \<notin> writeErr (storeWith textEmpty)"
    by (simp add: storeWith_def)
  have rt: "roundTrips sampleEnv (dataJson [noteA])"
    by (simp add: roundTrips_def stringify_A trim_textA parse_textA) (simp add: textA_def)
  have 6: "roundTrips sampleEnv (dataJson (upsertNotes sampleEnv
      (fst (loadNotes sampleEnv (storeWith textEmpty) 1714557600000)) ''./a.ts'' 4 ''fix this''
      ''2024-05-01T10:00:00.000Z''))"
    using rt by (simp add: load_textEmpty upsert_first)
  have a: "addOrUpdateNote sampleEnv (storeWith textEmpty) 1714557600000
      ''2024-05-01T10:00:00.000Z'' ''./a.ts'' 4 ''fix this'' = (True, storeWith textA)"
    by (simp add: addOrUpdateNote_def load_textEmpty upsert_first save_sample stringify_A)
  from upsert_twice [OF 1 2 3 4 5 6, of 1714557900000 "''2024-05-01T10:05:00.000Z''"
      "''fix this better''"]
  have "files (snd (addOrUpdateNote sampleEnv (storeWith textA) 1714557900000
        ''2024-05-01T10:05:00.000Z'' ''./a.ts'' 4 ''fix this better'')) (notesFile sampleEnv) =
        Some textB
   \<and> filter (sameKey sampleEnv (resolve sampleEnv ''./a.ts'') 4)
        (upsertNotes sampleEnv (fst (loadNotes sampleEnv (storeWith textA) 1714557900000))
           ''./a.ts'' 4 ''fix this better'' ''2024-05-01T10:05:00.000Z'') = [noteB]"
    by (simp add: a load_textA upsert_second stringify_B trim_fix_this_better resolve_a_ts
        noteB_def [symmetric])
  with 1 2 3 4 5 rt a show ?thesis by simp
qed

text \<open>
  Claim C4 as stated fails on a store that holds two notes with the same key (\<open>loadNotes\<close>
  removes no duplicate, and \<open>findIndex\<close> gives the first match only): after the two
  calls the store still holds two notes for the key.
\<close>

theorem upsert_twice_counterexample:
  "loadNotes sampleEnv (storeWith textAA) 1714557600000 = ([noteA, noteA], storeWith textAA)
   \<and> addOrUpdateNote sampleEnv (storeWith textAA) 1714557600000
        ''2024-05-01T10:00:00.000Z'' ''./a.ts'' 4 ''fix this'' = (True, storeWith textAA)
   \<and> addOrUpdateNote sampleEnv (storeWith textAA) 1714557900000
        ''2024-05-01T10:05:00.000Z'' ''./a.ts'' 4 ''fix this better'' = (True, storeWith textBA)
   \<and> loadNotes sampleEnv (storeWith textBA) 1714558000000 = ([noteB, noteA], storeWith textBA)
   \<and> filter (sameKey sampleEnv (resolve sampleEnv ''./a.ts'') 4) [noteB, noteA] =
        [noteB, noteA]"
  by (simp add: load_textAA load_textBA addOrUpdateNote_def upsert_again upsert_second
      save_sample stringify_AA stringify_BA resolve_a_ts sameKey_noteA sameKey_noteB)

text \<open>
  Claim C8, amended. Every note \<open>loadNotes\<close> returns has a text that is trimmed and not
  empty. The note \<open>addOrUpdateNote\<close> puts into the collection has the trimmed input as its
  text, and the upsert keeps every text of the collection trimmed. The store checks no
  length, and the upsert does not check that the trimmed text is not empty.
\<close>

theorem stored_text_trimmed:
  "(\<forall>n\<in>set (fst (loadNotes e s now)). trim (noteText n) = noteText n \<and> noteText n \<noteq> [])
   \<and> \<lparr>filePath = resolve e fp, line = l, noteText = trim t, timestamp = stamp\<rparr>
        \<in> set (upsertNotes e ns fp l t stamp)
   \<and> trim (trim t) = trim t
   \<and> ((\<forall>n\<in>set ns. trim (noteText n) = noteText n) \<longrightarrow>
        (\<forall>n\<in>set (upsertNotes e ns fp l t stamp). trim (noteText n) = noteText n))"
proof (intro conjI impI ballI)
  fix n assume "n \<in> set (fst (loadNotes e s now))"
  then have "trim (noteText n) = noteText n \<and> noteText n \<noteq> []"
    using loadNotes_cases [of e s now] by (auto dest: sanitizeNotes_text)
  then show "trim (noteText n) = noteText n" and "noteText n \<noteq> []" by simp_all
next
  show "\<lparr>filePath = resolve e fp, line = l, noteText = trim t, timestamp = stamp\<rparr>
      \<in> set (upsertNotes e ns fp l t stamp)"
    by (rule upsertNotes_new)
next
  show "trim (trim t) = trim t" by (rule trim_idem)
next
  fix n
  assume "\<forall>n\<in>set ns. trim (noteText n) = noteText n"
    and "n \<in> set (upsertNotes e ns fp l t stamp)"
  then show "trim (noteText n) = noteText n"
    using upsertNotes_set [of e ns fp l t stamp] by (auto simp add: trim_idem)
qed

theorem stored_text_trimmed_witness:
  "fst (loadNotes sampleEnv (storeWith textA) 1714557600000) = [noteA]
   \<and> trim (noteText noteA) = noteText noteA \<and> noteText noteA \<noteq> []
   \<and> upsertNotes sampleEnv [noteA] ''./a.ts'' 4 '' fix this better ''
        ''2024-05-01T10:05:00.000Z'' = [noteB]
   \<and> noteText noteB = trim '' fix this better ''
   \<and> trim (noteText noteB) = noteText noteB"
proof -
  have r: "resolve sampleEnv ''./a.ts'' = ''/work/a.ts''"
    by (simp add: resolve_sampleEnv sample_resolve_def)
  have t: "trim '' fix this better '' = ''fix this better''"
    by (simp add: trim_def isWhiteSpace_def)
  have k: "sameKey sampleEnv ''/work/a.ts'' 4 noteA"
    by (simp add: sameKey_def noteA_def resolve_sampleEnv sample_resolve_def)
  have u: "upsertNotes sampleEnv [noteA] ''./a.ts'' 4 '' fix this better ''
      ''2024-05-01T10:05:00.000Z'' = [noteB]"
    by (simp add: upsertNotes_def Let_def r k t noteB_def)
  have a: "\<forall>n\<in>set [noteA]. trim (noteText n) = noteText n"
    by (simp add: noteA_def trim_fix_this)
  from stored_text_trimmed [of sampleEnv "storeWith textA" 1714557600000 "''./a.ts''" 4
      "'' fix this better ''" "''2024-05-01T10:05:00.000Z''" "[noteA]"] a
  have "trim (noteText noteA) = noteText noteA \<and> noteText noteA \<noteq> []
      \<and> trim (noteText noteB) = noteText noteB"
    by (simp add: load_textA u)
  then show ?thesis
    by (simp add: load_textA u) (simp add: noteB_def t)
qed

text \<open>
  Claim C8 as stated fails: a persisted note with a text of 1001 characters passes
  \<open>isValidNote\<close> and is loaded as it is, and an upsert stores a text of 1001 characters
  and a text that is empty after trimming.
\<close>

theorem store_text_bound_counterexample:
  "isValidNote (noteJson longNote)
   \<and> sanitizeNotes sampleEnv [noteJson longNote] = [longNote]
   \<and> MAX_NOTE_LENGTH < length (noteText longNote)
   \<and> upsertNotes sampleEnv [] ''./a.ts'' 4 (noteText longNote) ''2024-05-01T10:00:00.000Z'' =
        [longNote]
   \<and> upsertNotes sampleEnv [] ''./a.ts'' 4 ''   '' ''2024-05-01T10:00:00.000Z'' =
        [\<lparr>filePath = ''/work/a.ts'', line = 4, noteText = [],
          timestamp = ''2024-05-01T10:00:00.000Z''\<rparr>]"
proof -
  have x: "\<not> isWhiteSpace CHR ''x''" by (simp add: isWhiteSpace_def)
  have t: "trim (replicate 1001 CHR ''x'') = replicate 1001 CHR ''x''"
    by (rule trim_id) (simp add: x)
  have b: "trim ''   '' = []" by (simp add: trim_def isWhiteSpace_def)
  have v: "isValidNote (noteJson longNote)"
    by (simp add: isValidNote_def noteJson_def longNote_def isString_def isNumber_def
        strOf_def numOf_def t)
  have s: "sanitizeNote sampleEnv (noteJson longNote) = longNote"
    by (simp add: sanitizeNote_def noteJson_def longNote_def strOf_def numOf_def t
        resolve_sampleEnv sample_resolve_def)
  have r: "resolve sampleEnv ''./a.ts'' = ''/work/a.ts''"
    by (simp add: resolve_sampleEnv sample_resolve_def)
  show ?thesis
    using v s
    by (simp add: sanitizeNotes_def MAX_NOTE_LENGTH_def upsertNotes_def Let_def r b)
      (simp add: longNote_def t)
qed

section \<open>Deleting\<close>

text \<open>
  What \<open>deleteNote\<close> does. If no loaded note matches the resolved path and the line, it
  returns \<open>false\<close> and performs no save: the file system is the one \<open>loadNotes\<close> left,
  and the notes file is unchanged. If a loaded note matches and the write is permitted, it
  returns \<open>true\<close> and the notes file holds the loaded notes that do not match, in their
  order.
\<close>

lemma deleteNote_when_saved:
  "(\<not> list_ex (sameKey e (resolve e fp) l) (fst (loadNotes e s now)) \<longrightarrow>
      deleteNote e s now fp l = (False, snd (loadNotes e s now)) \<and>
      files (snd (deleteNote e s now fp l)) (notesFile e) = files s (notesFile e))
   \<and> (list_ex (sameKey e (resolve e fp) l) (fst (loadNotes e s now)) \<and>
       notesFile e \<notin> writeErr s \<and> notesFile e @ ''.tmp'' \<notin> writeErr s \<longrightarrow>
      fst (deleteNote e s now fp l) \<and>
      files (snd (deleteNote e s now fp l)) (notesFile e) =
        Some (JSON_stringify e (dataJson
          (filter (\<lambda>n. \<not> (resolve e (filePath n) = resolve e fp \<and> line n = l))
             (fst (loadNotes e s now))))))"
proof -
  obtain ns s1 where L: "loadNotes e s now = (ns, s1)" by (cases "loadNotes e s now")
  have fr: "writeErr s1 = writeErr s" "files s1 (notesFile e) = files s (notesFile e)"
    using loadNotes_frame [of e s now] by (simp_all add: L)
  have len: "length (removeNote e ns fp l) = length ns \<longleftrightarrow>
      \<not> list_ex (sameKey e (resolve e fp) l) ns"
    by (simp add: removeNote_def length_filter_eq list_ex_iff)
  have rm: "filter (\<lambda>n. \<not> (resolve e (filePath n) = resolve e fp \<and> line n = l)) ns =
      removeNote e ns fp l"
    by (simp add: removeNote_def sameKey_def)
  have wr: "notesFile e \<notin> writeErr s \<and> notesFile e @ ''.tmp'' \<notin> writeErr s \<Longrightarrow>
      files (saveNotes e s1 (removeNote e ns fp l)) (notesFile e) =
        Some (JSON_stringify e (dataJson (removeNote e ns fp l)))"
    by (simp add: saveNotes_ok fr)
  show ?thesis
    unfolding L fst_conv snd_conv rm
    using len fr wr
    by (auto simp add: deleteNote_def L Let_def)
qed



section \<open>Rendering\<close>

lemma set_insertBy: "set (insertBy cmp x ys) = insert x (set ys)"
  by (induction ys) auto

lemma set_sortBy: "set (sortBy cmp xs) = set xs"
  by (induction xs) (simp_all add: sortBy_def set_insertBy)

text \<open>
  Claim C6. For a document of \<open>n\<close> lines, the notes that get a decoration are exactly
  the notes of the document's path whose line is in \<open>[0, n)\<close>. Rendering does not change
  the notes file, and a note of that path whose line is \<open>n\<close> or more gets no decoration
  but is still returned by \<open>getAllNotesSorted\<close> afterwards.
\<close>

theorem stale_notes_not_rendered:
  "fst (updateDecorationsForEditor e s now fp n) =
     filter (\<lambda>x. 0 \<le> line x \<and> line x < int n) (fst (getNotesForFile e s now fp))
   \<and> files (snd (updateDecorationsForEditor e s now fp n)) (notesFile e) =
       files s (notesFile e)
   \<and> (\<forall>x\<in>set (fst (getNotesForFile e s now fp)). int n \<le> line x \<longrightarrow>
         x \<notin> set (fst (updateDecorationsForEditor e s now fp n)) \<and>
         x \<in> set (fst (getAllNotesSorted e
                          (snd (updateDecorationsForEditor e s now fp n)) now')))"
proof (intro conjI ballI impI)
  show out: "fst (updateDecorationsForEditor e s now fp n) =
      filter (\<lambda>x. 0 \<le> line x \<and> line x < int n) (fst (getNotesForFile e s now fp))"
    by (simp add: updateDecorationsForEditor_def filterValidNotes_def split: prod.splits)
  have st: "snd (updateDecorationsForEditor e s now fp n) = snd (loadNotes e s now)"
    using getNotesForFile_snd [of e s now fp]
    by (auto simp add: updateDecorationsForEditor_def split: prod.splits)
  show "files (snd (updateDecorationsForEditor e s now fp n)) (notesFile e) =
      files s (notesFile e)"
    by (simp add: st loadNotes_frame)
  fix x
  assume x: "x \<in> set (fst (getNotesForFile e s now fp))" and stale: "int n \<le> line x"
  from stale show "x \<notin> set (fst (updateDecorationsForEditor e s now fp n))"
    by (simp add: out)
  have "fst (loadNotes e (snd (loadNotes e s now)) now') = fst (loadNotes e s now)"
    by (rule loadNotes_notes_cong) (simp_all add: loadNotes_frame)
  with x getNotesForFile_subset [of e s now fp]
  show "x \<in> set (fst (getAllNotesSorted e
      (snd (updateDecorationsForEditor e s now fp n)) now'))"
    by (auto simp add: st getAllNotesSorted_def set_sortBy split: prod.splits)
qed

theorem stale_notes_not_rendered_witness:
  "fst (getNotesForFile sampleEnv (storeWith textA) 1714557600000 ''/work/a.ts'') = [noteA]
   \<and> int 3 \<le> line noteA
   \<and> fst (updateDecorationsForEditor sampleEnv (storeWith textA) 1714557600000
            ''/work/a.ts'' 3) = []
   \<and> fst (updateDecorationsForEditor sampleEnv (storeWith textA) 1714557600000
            ''/work/a.ts'' 5) = [noteA]
   \<and> fst (getAllNotesSorted sampleEnv
            (snd (updateDecorationsForEditor sampleEnv (storeWith textA) 1714557600000
                    ''/work/a.ts'' 3)) 1714557600200) = [noteA]"
proof -
  have g: "getNotesForFile sampleEnv (storeWith textA) 1714557600000 ''/work/a.ts'' =
      ([noteA], storeWith textA)"
    by (simp add: getNotesForFile_def load_textA resolve_sampleEnv sample_resolve_def noteA_def)
  have l: "line noteA = 4" by (simp add: noteA_def)
  have u: "snd (updateDecorationsForEditor sampleEnv (storeWith textA) 1714557600000
      ''/work/a.ts'' 3) = storeWith textA"
    by (simp add: updateDecorationsForEditor_def g)
  have a: "fst (getAllNotesSorted sampleEnv (storeWith textA) 1714557600200) = [noteA]"
    by (simp add: getAllNotesSorted_def load_textA sortBy_def)
  from stale_notes_not_rendered [of sampleEnv "storeWith textA" 1714557600000 "''/work/a.ts''" 3
      1714557600200]
    stale_notes_not_rendered [of sampleEnv "storeWith textA" 1714557600000 "''/work/a.ts''" 5
      1714557600200]
  show ?thesis
    by (simp add: g l u a)
qed

section \<open>Word wrap\<close>

lemma wrapStep_inv:
  assumes "word \<in> set (splitOn CHR '' '' t)"
    and "\<forall>ln\<in>set ls. fitsOrLongWord t w ln" and "fitsOrLongWord t w cur"
    and "wrapStep w (ls, cur) word = (ls', cur')"
  shows "(\<forall>ln\<in>set ls'. fitsOrLongWord t w ln) \<and> fitsOrLongWord t w cur'"
proof (cases "length cur + length word + 1 \<le> w")
  case True
  with assms(4) have "ls' = ls" and "length cur' \<le> w"
    by (auto simp add: wrapStep_def)
  with assms(2) show ?thesis by (simp add: fitsOrLongWord_def)
next
  case False
  with assms(4) have "set ls' \<subseteq> insert cur (set ls)" and "cur' = word"
    by (auto simp add: wrapStep_def split: if_splits)
  moreover have "fitsOrLongWord t w word"
    using assms(1) by (auto simp add: fitsOrLongWord_def)
  ultimately show ?thesis using assms(2,3) by auto
qed

lemma wrapFold_inv:
  assumes "set ws \<subseteq> set (splitOn CHR '' '' t)"
    and "\<forall>ln\<in>set ls. fitsOrLongWord t w ln" and "fitsOrLongWord t w cur"
    and "foldl (wrapStep w) (ls, cur) ws = (ls', cur')"
  shows "(\<forall>ln\<in>set ls'. fitsOrLongWord t w ln) \<and> fitsOrLongWord t w cur'"
  using assms
proof (induction ws arbitrary: ls cur)
  case Nil
  then show ?case by simp
next
  case (Cons word ws)
  obtain ls1 cur1 where s: "wrapStep w (ls, cur) word = (ls1, cur1)"
    by (cases "wrapStep w (ls, cur) word")
  from Cons.prems(1) have "word \<in> set (splitOn CHR '' '' t)" by simp
  from wrapStep_inv [OF this Cons.prems(2,3) s]
  have "\<forall>ln\<in>set ls1. fitsOrLongWord t w ln" and "fitsOrLongWord t w cur1" by simp_all
  moreover from Cons.prems(1) have "set ws \<subseteq> set (splitOn CHR '' '' t)" by simp
  moreover from Cons.prems(4) s have "foldl (wrapStep w) (ls1, cur1) ws = (ls', cur')" by simp
  ultimately show ?case by (intro Cons.IH)
qed

lemma wrapLines_empty: "wrapLines [] w = []"
  by (simp add: wrapLines_def wrapStep_def)

lemma splitOn_not_Nil: "splitOn c s \<noteq> []"
  by (induction s) (auto split: list.splits)

lemma splitOn_append: "splitOn c (a @ c # b) = splitOn c a @ splitOn c b"
proof (induction a)
  case Nil
  then show ?case by simp
next
  case (Cons x a)
  then show ?case
    using splitOn_not_Nil [of c a] by (auto split: list.splits)
qed

lemma splitOn_single: "c \<notin> set x \<Longrightarrow> splitOn c x = [x]"
  by (induction x) auto

lemma splitOn_elems: "x \<in> set (splitOn c s) \<Longrightarrow> c \<notin> set x"
proof (induction s arbitrary: x)
  case Nil
  then show ?case by simp
next
  case (Cons y s)
  then show ?case
    using splitOn_not_Nil [of c s] by (auto split: if_splits list.splits)
qed

lemma wrapFold_greedy:
  "(case foldl (wrapStep w) (ls, cur) ws of
      (lines, currentLine) \<Rightarrow> if currentLine \<noteq> [] then lines @ [currentLine] else lines) =
   ls @ greedyWrap w cur ws"
proof (induction ws arbitrary: ls cur)
  case Nil
  then show ?case by (simp add: flushLine_def)
next
  case (Cons word ws)
  show ?case
  proof (cases "length cur + length word + 1 \<le> w")
    case True
    then have "wrapStep w (ls, cur) word = (ls, joinWord cur word)"
      by (simp add: wrapStep_def joinWord_def)
    with True Cons.IH [of ls "joinWord cur word"] show ?thesis by simp
  next
    case False
    then have "wrapStep w (ls, cur) word = (ls @ flushLine cur, word)"
      by (simp add: wrapStep_def flushLine_def)
    with False Cons.IH [of "ls @ flushLine cur" word] show ?thesis by simp
  qed
qed

lemma wrapLines_greedy: "wrapLines t w = greedyWrap w [] (splitOn CHR '' '' t)"
  using wrapFold_greedy [of w "[]" "[]" "splitOn CHR '' '' t"]
  by (simp add: wrapLines_def)

lemma hd_splitOn_joinWord:
  "cur \<noteq> [] \<Longrightarrow> hd (splitOn CHR '' '' (joinWord cur word)) = hd (splitOn CHR '' '' cur)"
  using splitOn_append [of "CHR '' ''" cur word] splitOn_not_Nil [of "CHR '' ''" cur]
  by (simp add: joinWord_def)

lemma greedyWrap_first:
  "cur \<noteq> [] \<Longrightarrow>
   greedyWrap w cur ws \<noteq> [] \<and>
   hd (splitOn CHR '' '' (hd (greedyWrap w cur ws))) = hd (splitOn CHR '' '' cur)"
proof (induction ws arbitrary: cur)
  case Nil
  then show ?case by (simp add: flushLine_def)
next
  case (Cons word ws)
  from Cons.prems have j: "joinWord cur word \<noteq> []" by (simp add: joinWord_def)
  show ?case
    using Cons.prems Cons.IH [OF j] hd_splitOn_joinWord [OF Cons.prems, of word]
    by (simp add: flushLine_def)
qed

lemma greedyWrap_breaks:
  assumes "\<forall>x\<in>set ws. CHR '' '' \<notin> set x"
  shows "successively (\<lambda>a b. w < length a + length (hd (splitOn CHR '' '' b)) + 1)
    (greedyWrap w cur ws)"
  using assms
proof (induction ws arbitrary: cur)
  case Nil
  then show ?case by (simp add: flushLine_def)
next
  case (Cons word ws)
  let ?R = "\<lambda>a b. w < length a + length (hd (splitOn CHR '' '' b)) + 1"
  from Cons.prems have ws: "\<forall>x\<in>set ws. CHR '' '' \<notin> set x" and wd: "CHR '' '' \<notin> set word"
    by simp_all
  show ?case
  proof (cases "length cur + length word + 1 \<le> w")
    case True
    with Cons.IH [OF ws] show ?thesis by simp
  next
    case False
    show ?thesis
    proof (cases "cur = []")
      case True
      with False Cons.IH [OF ws, of word] show ?thesis by (simp add: flushLine_def)
    next
      case cur: False
      have "greedyWrap w word ws = [] \<or> ?R cur (hd (greedyWrap w word ws))"
      proof (cases "word = []")
        case True
        with False show ?thesis by simp
      next
        case word: False
        from greedyWrap_first [OF word, of w ws] splitOn_single [OF wd] False
        show ?thesis by simp
      qed
      with False cur Cons.IH [OF ws, of word] show ?thesis
        by (simp add: flushLine_def successively_Cons)
    qed
  qed
qed

lemma greedyWrap_words:
  assumes "\<forall>x\<in>set ws. CHR '' '' \<notin> set x"
  shows "filter (\<lambda>x. x \<noteq> []) (concat (map (splitOn CHR '' '') (greedyWrap w cur ws))) =
    filter (\<lambda>x. x \<noteq> []) (splitOn CHR '' '' cur @ ws)"
  using assms
proof (induction ws arbitrary: cur)
  case Nil
  then show ?case by (simp add: flushLine_def)
next
  case (Cons word ws)
  from Cons.prems have ws: "\<forall>x\<in>set ws. CHR '' '' \<notin> set x" and wd: "CHR '' '' \<notin> set word"
    by simp_all
  have sw: "splitOn CHR '' '' word = [word]" using wd by (rule splitOn_single)
  show ?case
  proof (cases "length cur + length word + 1 \<le> w")
    case True
    have "filter (\<lambda>x. x \<noteq> []) (splitOn CHR '' '' (joinWord cur word)) =
        filter (\<lambda>x. x \<noteq> []) (splitOn CHR '' '' cur @ [word])"
    proof (cases "cur = []")
      case True
      then show ?thesis by (simp add: joinWord_def sw)
    next
      case False
      then have "splitOn CHR '' '' (joinWord cur word) = splitOn CHR '' '' cur @ [word]"
        using splitOn_append [of "CHR '' ''" cur word] by (simp only: joinWord_def sw if_False append_Cons append_Nil)
      then show ?thesis by simp
    qed
    with True Cons.IH [OF ws, of "joinWord cur word"] show ?thesis by simp
  next
    case False
    with Cons.IH [OF ws, of word] sw show ?thesis by (simp add: flushLine_def)
  qed
qed

text \<open>
  Claim C7. \<open>formatTextForDisplay\<close> joins the lines of the greedy word wrap of the
  words of the text: a word is appended to the current line exactly when
  \<open>currentLine.length + word.length + 1 \<le> maxLineLength\<close>, otherwise the current line is
  flushed and the word starts the next one. Every line has at most \<open>maxLineLength\<close>
  characters unless it is a single word of the input that is longer. The lines carry the
  non-empty words of the input in their order. And no line is broken early: the first
  word of a line did not fit onto the line before it.
\<close>

theorem wrap_line_lengths:
  "formatTextForDisplay t w = joinLines (wrapLines t w)
   \<and> wrapLines t w = greedyWrap w [] (splitOn CHR '' '' t)
   \<and> (\<forall>ln\<in>set (wrapLines t w).
         length ln \<le> w \<or> (ln \<in> set (splitOn CHR '' '' t) \<and> w < length ln))
   \<and> filter (\<lambda>x. x \<noteq> []) (concat (map (splitOn CHR '' '') (wrapLines t w))) =
       filter (\<lambda>x. x \<noteq> []) (splitOn CHR '' '' t)
   \<and> successively (\<lambda>a b. w < length a + length (hd (splitOn CHR '' '' b)) + 1)
         (wrapLines t w)"
proof (intro conjI)
  show "formatTextForDisplay t w = joinLines (wrapLines t w)"
    by (simp add: formatTextForDisplay_def wrapLines_empty)
  show "wrapLines t w = greedyWrap w [] (splitOn CHR '' '' t)"
    by (rule wrapLines_greedy)
  obtain ls cur where f: "foldl (wrapStep w) ([], []) (splitOn CHR '' '' t) = (ls, cur)"
    by (cases "foldl (wrapStep w) ([], []) (splitOn CHR '' '' t)")
  have "(\<forall>ln\<in>set ls. fitsOrLongWord t w ln) \<and> fitsOrLongWord t w cur"
    by (rule wrapFold_inv [OF _ _ _ f]) (simp_all add: fitsOrLongWord_def)
  then have "\<forall>ln\<in>set (wrapLines t w). fitsOrLongWord t w ln"
    by (simp add: wrapLines_def f)
  then show "\<forall>ln\<in>set (wrapLines t w).
      length ln \<le> w \<or> (ln \<in> set (splitOn CHR '' '' t) \<and> w < length ln)"
    by (simp add: fitsOrLongWord_def)
  have nosp: "\<forall>x\<in>set (splitOn CHR '' '' t). CHR '' '' \<notin> set x"
    by (simp add: splitOn_elems)
  show "filter (\<lambda>x. x \<noteq> []) (concat (map (splitOn CHR '' '') (wrapLines t w))) =
      filter (\<lambda>x. x \<noteq> []) (splitOn CHR '' '' t)"
    using greedyWrap_words [OF nosp, of w "[]"] by (simp add: wrapLines_greedy)
  show "successively (\<lambda>a b. w < length a + length (hd (splitOn CHR '' '' b)) + 1)
      (wrapLines t w)"
    using greedyWrap_breaks [OF nosp, of w "[]"] by (simp add: wrapLines_greedy)
qed

theorem wrap_line_lengths_witness:
  "wrapLines ''aaa bb cccccc d e'' 5 = [''aaa'', ''bb'', ''cccccc'', ''d e'']
   \<and> greedyWrap 5 [] [''aaa'', ''bb'', ''cccccc'', ''d'', ''e''] =
       [''aaa'', ''bb'', ''cccccc'', ''d e'']
   \<and> formatTextForDisplay ''aaa bb cccccc d e'' 5 =
       ''aaa'' @ [CHR 0x0A] @ ''bb'' @ [CHR 0x0A] @ ''cccccc'' @ [CHR 0x0A] @ ''d e''
   \<and> length ''aaa'' \<le> (5::nat) \<and> length ''bb'' \<le> (5::nat) \<and> length ''d e'' \<le> (5::nat)
   \<and> ''cccccc'' \<in> set (splitOn CHR '' '' ''aaa bb cccccc d e'')
   \<and> (5::nat) < length ''cccccc''
   \<and> filter (\<lambda>x. x \<noteq> [])
        (concat (map (splitOn CHR '' '') [''aaa'', ''bb'', ''cccccc'', ''d e''])) =
       [''aaa'', ''bb'', ''cccccc'', ''d'', ''e'']
   \<and> successively (\<lambda>a b. 5 < length a + length (hd (splitOn CHR '' '' b)) + 1)
        [''aaa'', ''bb'', ''cccccc'', ''d e'']
   \<and> wrapLines ''ab cd'' 5 = [''ab cd'']
   \<and> wrapLines ''ab cde'' 5 = [''ab'', ''cde'']"
proof -
  have s: "splitOn CHR '' '' ''aaa bb cccccc d e'' = [''aaa'', ''bb'', ''cccccc'', ''d'', ''e'']"
    by simp
  have w: "wrapLines ''aaa bb cccccc d e'' 5 = [''aaa'', ''bb'', ''cccccc'', ''d e'']"
    by (simp add: wrapLines_def s wrapStep_def)
  have b1: "wrapLines ''ab cd'' 5 = [''ab cd'']"
    by (simp add: wrapLines_def wrapStep_def)
  have b2: "wrapLines ''ab cde'' 5 = [''ab'', ''cde'']"
    by (simp add: wrapLines_def wrapStep_def)
  have g: "greedyWrap 5 [] [''aaa'', ''bb'', ''cccccc'', ''d'', ''e''] =
      [''aaa'', ''bb'', ''cccccc'', ''d e'']"
    using wrap_line_lengths [of "''aaa bb cccccc d e''" 5] unfolding w s
    by (elim conjE) (rule sym)
  have f: "formatTextForDisplay ''aaa bb cccccc d e'' 5 =
      ''aaa'' @ [CHR 0x0A] @ ''bb'' @ [CHR 0x0A] @ ''cccccc'' @ [CHR 0x0A] @ ''d e''"
    using wrap_line_lengths [of "''aaa bb cccccc d e''" 5] unfolding w by simp
  have l: "length ''aaa'' \<le> (5::nat)" "length ''bb'' \<le> (5::nat)" "length ''d e'' \<le> (5::nat)"
      "(5::nat) < length ''cccccc''"
    by simp_all
  have m: "''cccccc'' \<in> set (splitOn CHR '' '' ''aaa bb cccccc d e'')"
    unfolding s by simp
  have fl: "filter (\<lambda>x. x \<noteq> [])
      (concat (map (splitOn CHR '' '') [''aaa'', ''bb'', ''cccccc'', ''d e''])) =
      [''aaa'', ''bb'', ''cccccc'', ''d'', ''e'']"
    by simp
  have su: "successively (\<lambda>a b. 5 < length a + length (hd (splitOn CHR '' '' b)) + 1)
      [''aaa'', ''bb'', ''cccccc'', ''d e'']"
    by simp
  show ?thesis
    by (intro conjI; fact)
qed

section \<open>Click debouncing\<close>

lemma oneTimer_initial: "oneTimer initialHandler"
  by (simp add: oneTimer_def initialHandler_def)

lemma length_timers: "oneTimer h \<Longrightarrow> length (timers h) \<le> 1"
  by (auto simp add: oneTimer_def split: option.splits)

lemma runUntil_cases:
  assumes "oneTimer h"
  shows "runUntil t h = h \<and> (\<forall>tm\<in>set (timers h). t < due tm) \<or>
    (\<exists>tm. timers h = [tm] \<and> due tm \<le> t \<and>
       runUntil t h =
         h\<lparr>timers := [],
           evaluated := evaluated h @ [(cbEditor tm, cbLine tm, cbCharacter tm)],
           clickTimeout := None\<rparr>)"
proof (cases "timers h")
  case Nil
  then show ?thesis by (simp add: runUntil_def)
next
  case (Cons tm rest)
  with assms have one: "timers h = [tm]"
    by (auto simp add: oneTimer_def split: option.splits)
  show ?thesis
  proof (cases "due tm \<le> t")
    case True
    with one show ?thesis by (simp add: runUntil_def runTimer_def)
  next
    case False
    with one show ?thesis by (simp add: runUntil_def)
  qed
qed

lemma runUntil_props:
  assumes "oneTimer h"
  shows "oneTimer (runUntil t h)"
    and "lastClickPosition (runUntil t h) = lastClickPosition h"
    and "\<forall>tm\<in>set (timers (runUntil t h)). t < due tm"
    and "\<exists>new. evaluated (runUntil t h) = evaluated h @ new \<and>
           length new + length (timers (runUntil t h)) = length (timers h)"
  using runUntil_cases [OF assms, of t] assms
  by (auto simp add: oneTimer_def)

lemma debounceClick_props:
  assumes "oneTimer h"
  shows "timers (debounceClick h now ed l c) =
      [\<lparr>timerId = nextTimerId h, due = now + CLICK_DEBOUNCE_TIME, cbEditor = ed, cbLine = l,
        cbCharacter = c\<rparr>]"
    and "clickTimeout (debounceClick h now ed l c) = Some (nextTimerId h)"
    and "evaluated (debounceClick h now ed l c) = evaluated h"
    and "lastClickPosition (debounceClick h now ed l c) = lastClickPosition h"
  using assms
  by (auto simp add: debounceClick_def clearTimeout_def oneTimer_def Let_def
      split: option.splits)

lemma oneTimer_last: "oneTimer (h\<lparr>lastClickPosition := p\<rparr>) = oneTimer h"
  by (simp add: oneTimer_def)

lemma onSelection_same:
  "isSamePosition h (activeLine ev) (activeCharacter ev) \<Longrightarrow> onSelection h now ev = h"
  by (simp add: onSelection_def split: option.splits)

lemma onSelection_new:
  assumes "oneTimer h" and "qualifying ev"
    and "\<not> isSamePosition h (activeLine ev) (activeCharacter ev)"
  shows "timers (onSelection h now ev) =
      [\<lparr>timerId = nextTimerId h, due = now + CLICK_DEBOUNCE_TIME,
        cbEditor = the (textEditor ev), cbLine = activeLine ev,
        cbCharacter = activeCharacter ev\<rparr>]"
    and "clickTimeout (onSelection h now ev) = Some (nextTimerId h)"
    and "evaluated (onSelection h now ev) = evaluated h"
    and "lastClickPosition (onSelection h now ev) = Some (activeLine ev, activeCharacter ev)"
  using assms debounceClick_props [of "h\<lparr>lastClickPosition :=
      Some (activeLine ev, activeCharacter ev)\<rparr>" now "the (textEditor ev)" "activeLine ev"
      "activeCharacter ev"]
  by (auto simp add: onSelection_def qualifying_def oneTimer_last)

lemma oneTimer_onSelection: "oneTimer h \<Longrightarrow> oneTimer (onSelection h now ev)"
proof -
  assume h: "oneTimer h"
  have "oneTimer (debounceClick (h\<lparr>lastClickPosition := p\<rparr>) now ed l c)" for p ed l c
    using debounceClick_props(1,2) [of "h\<lparr>lastClickPosition := p\<rparr>" now ed l c] h
    by (simp add: oneTimer_last oneTimer_def)
  with h show ?thesis by (simp add: onSelection_def split: option.splits)
qed

lemma oneTimer_deliver: "oneTimer h \<Longrightarrow> oneTimer (deliver h tev)"
  by (simp add: deliver_def oneTimer_onSelection runUntil_props(1))

lemma oneTimer_foldl: "oneTimer h \<Longrightarrow> oneTimer (foldl deliver h tevs)"
  by (induction tevs arbitrary: h) (simp_all add: oneTimer_deliver)

lemma oneTimer_runEvents: "oneTimer (runEvents tevs)"
  by (simp add: runEvents_def oneTimer_foldl oneTimer_initial)

lemma two_clicks:
  assumes h: "oneTimer h" and q: "qualifying ev1" "qualifying ev2"
    and pos: "activeLine ev2 = activeLine ev1" "activeCharacter ev2 = activeCharacter ev1"
    and t: "t1 \<le> t2" "t2 < t1 + CLICK_DEBOUNCE_TIME"
  shows "\<exists>new. evaluated (runUntil T (deliver (deliver h (t1, ev1)) (t2, ev2))) =
      evaluated (runUntil t1 h) @ new \<and> length new \<le> 1"
proof -
  define h0 where "h0 = runUntil t1 h"
  have h0: "oneTimer h0" unfolding h0_def using h by (rule runUntil_props(1))
  define h1 where "h1 = onSelection h0 t1 ev1"
  have h1: "oneTimer h1" unfolding h1_def using h0 by (rule oneTimer_onSelection)
  have same1: "isSamePosition h1 (activeLine ev1) (activeCharacter ev1)"
    using onSelection_new(4) [OF h0 q(1), of t1] onSelection_same [of h0 ev1 t1]
    by (cases "isSamePosition h0 (activeLine ev1) (activeCharacter ev1)")
      (simp_all add: h1_def isSamePosition_def)
  have ev1: "evaluated h1 = evaluated h0"
    using onSelection_new(3) [OF h0 q(1), of t1] onSelection_same [of h0 ev1 t1]
    by (cases "isSamePosition h0 (activeLine ev1) (activeCharacter ev1)")
      (simp_all add: h1_def)
  define h2 where "h2 = runUntil t2 h1"
  have h2: "oneTimer h2" unfolding h2_def using h1 by (rule runUntil_props(1))
  have "lastClickPosition h2 = lastClickPosition h1"
    unfolding h2_def using h1 by (rule runUntil_props(2))
  with same1 pos have "isSamePosition h2 (activeLine ev2) (activeCharacter ev2)"
    by (simp add: isSamePosition_def)
  then have d2: "deliver (deliver h (t1, ev1)) (t2, ev2) = h2"
    by (simp add: deliver_def h0_def h1_def h2_def onSelection_same)
  obtain new1 where n1: "evaluated h2 = evaluated h1 @ new1"
      "length new1 + length (timers h2) = length (timers h1)"
    using runUntil_props(4) [OF h1, of t2] by (auto simp add: h2_def)
  obtain new2 where n2: "evaluated (runUntil T h2) = evaluated h2 @ new2"
      "length new2 + length (timers (runUntil T h2)) = length (timers h2)"
    using runUntil_props(4) [OF h2, of T] by auto
  have "length (timers h1) \<le> 1" using h1 by (rule length_timers)
  with n1 n2 have "length (new1 @ new2) \<le> 1" by simp
  moreover have "evaluated (runUntil T h2) = evaluated h0 @ (new1 @ new2)"
    by (simp add: n1 n2 ev1)
  ultimately show ?thesis unfolding d2 h0_def by blast
qed

text \<open>
  Claim C9. After any sequence of selection events, let two qualifying mouse events at the
  same position arrive one after the other, at times
  \<open>t1 \<le> t2 < t1 + CLICK_DEBOUNCE_TIME\<close>. Then, whatever the
  later time \<open>T\<close> up to which the timers run, at most one call of
  \<open>handlePotentialNoteClick\<close> (each of which calls \<open>onNoteClick\<close> at most once) is added
  to those made up to \<open>t1\<close>. An event at the last recorded position leaves the handler as
  it is: it neither sets nor clears a timer. After a qualifying event at a new position
  exactly one timer is set, the one of that event: a timer that was pending is cleared.
\<close>

theorem debounce_same_position:
  "(qualifying ev1 \<and> qualifying ev2 \<and> activeLine ev2 = activeLine ev1 \<and>
    activeCharacter ev2 = activeCharacter ev1 \<and> t1 \<le> t2 \<and> t2 < t1 + CLICK_DEBOUNCE_TIME \<longrightarrow>
      (\<exists>new. evaluated (runUntil T (deliver (deliver (runEvents tevs) (t1, ev1)) (t2, ev2))) =
               evaluated (runUntil t1 (runEvents tevs)) @ new \<and> length new \<le> 1))
   \<and> (isSamePosition h (activeLine ev) (activeCharacter ev) \<longrightarrow> onSelection h now ev = h)
   \<and> (qualifying ev \<and>
       \<not> isSamePosition (runEvents tevs) (activeLine ev) (activeCharacter ev) \<longrightarrow>
         timers (onSelection (runEvents tevs) now ev) =
           [\<lparr>timerId = nextTimerId (runEvents tevs), due = now + CLICK_DEBOUNCE_TIME,
             cbEditor = the (textEditor ev), cbLine = activeLine ev,
             cbCharacter = activeCharacter ev\<rparr>])"
  using two_clicks [OF oneTimer_runEvents [of tevs], where ?ev1.0 = ev1 and ?ev2.0 = ev2
      and ?t1.0 = t1 and ?t2.0 = t2 and T = T]
    onSelection_same [of h ev now]
    onSelection_new(1) [OF oneTimer_runEvents [of tevs], where ev = ev and now = now]
  by blast

lemmas click_defs =
  runEvents_def deliver_def runUntil_def runTimer_def onSelection_def debounceClick_def
  clearTimeout_def isSamePosition_def qualifying_def initialHandler_def
  CLICK_DEBOUNCE_TIME_def sampleClick_def otherClick_def Let_def

theorem debounce_same_position_witness:
  "qualifying sampleClick \<and> (1000::nat) \<le> 1040 \<and> 1040 < 1000 + CLICK_DEBOUNCE_TIME
   \<and> evaluated (runUntil 1000 (runEvents [])) = []
   \<and> evaluated (runUntil 2000
        (deliver (deliver (runEvents []) (1000, sampleClick)) (1040, sampleClick))) =
        [(''/work/a.ts'', 4, 17)]
   \<and> isSamePosition (deliver (runEvents []) (1000, sampleClick)) 4 17
   \<and> onSelection (deliver (runEvents []) (1000, sampleClick)) 1040 sampleClick =
        deliver (runEvents []) (1000, sampleClick)
   \<and> \<not> isSamePosition (runEvents [(900, otherClick)]) 4 17
   \<and> timers (runEvents [(900, otherClick)]) =
        [\<lparr>timerId = 0, due = 1000, cbEditor = ''/work/a.ts'', cbLine = 9, cbCharacter = 2\<rparr>]
   \<and> timers (onSelection (runEvents [(900, otherClick)]) 950 sampleClick) =
        [\<lparr>timerId = 1, due = 1050, cbEditor = ''/work/a.ts'', cbLine = 4, cbCharacter = 17\<rparr>]"
proof -
  have q: "qualifying sampleClick" by (simp add: click_defs)
  have p: "activeLine sampleClick = 4" "activeCharacter sampleClick = 17"
    by (simp_all add: sampleClick_def)
  have e0: "evaluated (runUntil 1000 (runEvents [])) = []"
    by (simp add: click_defs)
  have d1: "deliver (runEvents []) (1000, sampleClick) =
      \<lparr>clickTimeout = Some 0, lastClickPosition = Some (4, 17),
       timers = [\<lparr>timerId = 0, due = 1100, cbEditor = ''/work/a.ts'', cbLine = 4,
                  cbCharacter = 17\<rparr>],
       nextTimerId = 1, evaluated = []\<rparr>"
    by (simp add: click_defs)
  have s: "isSamePosition (deliver (runEvents []) (1000, sampleClick)) 4 17"
    by (simp add: d1 isSamePosition_def)
  have e2: "evaluated (runUntil 2000
      (deliver (deliver (runEvents []) (1000, sampleClick)) (1040, sampleClick))) =
      [(''/work/a.ts'', 4, 17)]"
    unfolding d1 by (simp add: click_defs)
  have r: "runEvents [(900, otherClick)] =
      \<lparr>clickTimeout = Some 0, lastClickPosition = Some (9, 2),
       timers = [\<lparr>timerId = 0, due = 1000, cbEditor = ''/work/a.ts'', cbLine = 9,
                  cbCharacter = 2\<rparr>],
       nextTimerId = 1, evaluated = []\<rparr>"
    by (simp add: click_defs)
  have n: "\<not> isSamePosition (runEvents [(900, otherClick)]) 4 17"
    by (simp add: r isSamePosition_def)
  from debounce_same_position [of sampleClick sampleClick 1000 1040 2000 "[]"
      "deliver (runEvents []) (1000, sampleClick)" sampleClick 1040]
    debounce_same_position [of sampleClick sampleClick 1000 1040 2000 "[(900, otherClick)]"
      "deliver (runEvents []) (1000, sampleClick)" sampleClick 950]
    q s n
  have "onSelection (deliver (runEvents []) (1000, sampleClick)) 1040 sampleClick =
        deliver (runEvents []) (1000, sampleClick)
    \<and> timers (onSelection (runEvents [(900, otherClick)]) 950 sampleClick) =
        [\<lparr>timerId = 1, due = 1050, cbEditor = ''/work/a.ts'', cbLine = 4, cbCharacter = 17\<rparr>]"
    by (simp add: p) (simp add: r CLICK_DEBOUNCE_TIME_def sampleClick_def)
  with q e0 e2 s n r show ?thesis
    by (simp add: CLICK_DEBOUNCE_TIME_def)
qed

end
